theory Spec2Isabelle
  imports Complex_Main "HOL-Library.Sublist"
begin

section \<open>JavaScript values\<close>

text \<open>
  The service description that \<^verbatim>\<open>logStat\<close> inspects is parsed YAML/JSON: undefined,
  null, booleans, numbers, strings, arrays and plain objects. An object is the list of its
  own enumerable properties in the order \<^verbatim>\<open>Object.keys\<close> reports them (keys distinct;
  a lookup takes the first entry). Strings are lists of ASCII characters.

  A number is NaN, an infinity or a finite value; the code never does arithmetic on the
  numbers of the configuration, it only converts them and tests their truthiness, so a
  finite double is represented by the rational it denotes (\<open>-0\<close> is \<open>Fin 0\<close>: both are
  falsy).
\<close>

datatype jsnum = NaN | PosInfinity | NegInfinity | Fin rat

datatype jsval =
    Undefined
  | Null
  | Bool bool
  | Num jsnum
  | Str string
  | Arr "jsval list"
  | Obj "(string \<times> jsval) list"

text \<open>What the code can throw: a \<^verbatim>\<open>TypeError\<close> of the language (a property read on
  undefined or null, a call of something that is not a function), or whatever a
  collaborator outside this file raises.\<close>

datatype error = TypeError | HostError string

definition bindE :: "error + 'a \<Rightarrow> ('a \<Rightarrow> error + 'b) \<Rightarrow> error + 'b" where
  "bindE m f = (case m of Inl e \<Rightarrow> Inl e | Inr v \<Rightarrow> f v)"

text \<open>ToBoolean: the falsy values are undefined, null, false, 0, NaN and the empty string.\<close>

fun truthy_num :: "jsnum \<Rightarrow> bool" where
  "truthy_num NaN = False"
| "truthy_num (Fin r) = (r \<noteq> 0)"
| "truthy_num PosInfinity = True"
| "truthy_num NegInfinity = True"

fun truthy :: "jsval \<Rightarrow> bool" where
  "truthy Undefined = False"
| "truthy Null = False"
| "truthy (Bool b) = b"
| "truthy (Num n) = truthy_num n"
| "truthy (Str s) = (s \<noteq> [])"
| "truthy (Arr xs) = True"
| "truthy (Obj kvs) = True"

text \<open>
  \<^verbatim>\<open>v.k\<close> for the property names this code reads (\<^verbatim>\<open>Resources\<close>, \<^verbatim>\<open>Outputs\<close>,
  \<^verbatim>\<open>memorySize\<close>, \<^verbatim>\<open>timeout\<close>, \<^verbatim>\<open>name\<close>, \<^verbatim>\<open>runtime\<close>, \<^verbatim>\<open>stage\<close>, \<^verbatim>\<open>region\<close>,
  \<^verbatim>\<open>variableSyntax\<close>, \<^verbatim>\<open>http\<close>, \<^verbatim>\<open>authorizer\<close>, \<^verbatim>\<open>type\<close>, \<^verbatim>\<open>arn\<close>). None of them
  is defined on a built-in prototype, so a primitive or an array yields undefined; on
  undefined and null the read throws.
\<close>

fun getProp :: "jsval \<Rightarrow> string \<Rightarrow> error + jsval" where
  "getProp Undefined k = Inl TypeError"
| "getProp Null k = Inl TypeError"
| "getProp (Obj kvs) k = Inr (case map_of kvs k of Some v \<Rightarrow> v | None \<Rightarrow> Undefined)"
| "getProp v k = Inr Undefined"

text \<open>
  \<^verbatim>\<open>Object.keys(v)\<close>: the own enumerable string keys. A string and an array have their
  indices as keys, a number or boolean has none, undefined and null throw.
\<close>

fun digit_char :: "nat \<Rightarrow> char" where
  "digit_char n = char_of (48 + n)"

fun decimal :: "nat \<Rightarrow> string" where
  "decimal n = (if n < 10 then [digit_char n] else decimal (n div 10) @ [digit_char (n mod 10)])"

declare decimal.simps [simp del]

definition indices :: "nat \<Rightarrow> string list" where
  "indices n = map decimal [0..<n]"

fun Object_keys :: "jsval \<Rightarrow> error + string list" where
  "Object_keys Undefined = Inl TypeError"
| "Object_keys Null = Inl TypeError"
| "Object_keys (Bool b) = Inr []"
| "Object_keys (Num n) = Inr []"
| "Object_keys (Str s) = Inr (indices (length s))"
| "Object_keys (Arr xs) = Inr (indices (length xs))"
| "Object_keys (Obj kvs) = Inr (map fst kvs)"

text \<open>
  \<^verbatim>\<open>String.prototype.toUpperCase\<close> on ASCII text: the letters a to z become A to Z and
  every other character stays.
\<close>

definition toUpperCase_char :: "char \<Rightarrow> char" where
  "toUpperCase_char c =
     (case map_of (zip ''abcdefghijklmnopqrstuvwxyz'' ''ABCDEFGHIJKLMNOPQRSTUVWXYZ'') c of
        Some u \<Rightarrow> u
      | None \<Rightarrow> c)"

definition toUpperCase :: "string \<Rightarrow> string" where
  "toUpperCase s = map toUpperCase_char s"

text \<open>
  \<^verbatim>\<open>v.toUpperCase()\<close>: only a string has the method; on anything else the member is
  undefined (or, for an object of parsed data, not a function) and the call throws.
\<close>

fun call_toUpperCase :: "jsval \<Rightarrow> error + string" where
  "call_toUpperCase (Str s) = Inr (toUpperCase s)"
| "call_toUpperCase v = Inl TypeError"

text \<open>
  \<^verbatim>\<open>v.includes(pat)\<close> with a string argument: a substring test on a string, a membership
  test on an array, a throw on everything else.
\<close>

fun call_includes :: "jsval \<Rightarrow> string \<Rightarrow> error + bool" where
  "call_includes (Str s) pat = Inr (sublist pat s)"
| "call_includes (Arr xs) pat = Inr (Str pat \<in> set xs)"
| "call_includes v pat = Inl TypeError"

section \<open>The inputs of \<^verbatim>\<open>logStat\<close>\<close>

text \<open>
  The service object as \<^verbatim>\<open>logStat\<close> reads it. \<^verbatim>\<open>functions\<close> maps a function name to
  a function object; what the code inspects dynamically inside (\<^verbatim>\<open>memorySize\<close>,
  \<^verbatim>\<open>timeout\<close>, \<^verbatim>\<open>events\<close>, and all of \<^verbatim>\<open>resources\<close>, \<^verbatim>\<open>provider\<close>, \<^verbatim>\<open>plugins\<close>,
  \<^verbatim>\<open>custom\<close>) is a JavaScript value, \<open>Undefined\<close> when the property is absent.
\<close>

record function_spec =
  memorySize :: jsval
  timeout :: jsval
  events :: jsval

record service =
  resources :: jsval
  provider :: jsval
  "functions" :: "(string \<times> function_spec) list"
  plugins :: jsval
  custom :: jsval

record processed_input =
  options :: "(string \<times> jsval) list"
  commands :: "string list"

record serverless_config =
  servicePath :: jsval

record serverless =
  service :: service
  processedInput :: processed_input
  config :: serverless_config
  version :: jsval

text \<open>The \<^verbatim>\<open>Utils\<close> instance: \<^verbatim>\<open>this.serverless\<close> is set by the constructor, and the
  provider defaults of memory size and timeout are read through it.\<close>

record utils =
  this_serverless :: serverless

text \<open>What \<^verbatim>\<open>configUtils.getConfig()\<close> returns.\<close>

record user_config =
  frameworkId :: jsval
  trackingDisabled :: jsval
  userId :: jsval

text \<open>
  Everything \<^verbatim>\<open>logStat\<close> takes from outside this file: the outcome of
  \<^verbatim>\<open>configUtils.getConfig()\<close> (a configuration, or the exception it raised), the clock
  (\<^verbatim>\<open>new Date()\<close>: its time in milliseconds and the zone token \<^verbatim>\<open>[A-Z]+[+-][0-9]+\<close> of its
  string form, such as \<^verbatim>\<open>GMT+0100\<close>, which every date string has), the process, the
  container and CI detection, and the two parts of the language's \<^verbatim>\<open>Number(v)\<close> that
  depend on floating-point parsing: the value of a string (StringToNumber) and the value
  of an array or object (ToPrimitive, then ToNumber; it can throw).
\<close>

record host =
  getConfig :: "error + user_config"
  StringToNumber :: "string \<Rightarrow> jsnum"
  ObjectToNumber :: "jsval \<Rightarrow> error + jsnum"
  date_getTime :: int
  date_timezone :: string
  process_platform :: string
  process_version :: string
  env_SERVERLESS_DASHBOARD :: "string option"
  isDockerContainer :: bool
  ci_isCI :: bool
  ci_name :: jsval

section \<open>The payload\<close>

record memorySizeAndTimeoutObject =
  out_memorySize :: jsnum
  out_timeout :: jsnum

text \<open>An entry of \<^verbatim>\<open>numberOfEventsPerType\<close>. The name is \<^verbatim>\<open>Object.keys(event)[0]\<close>:
  \<open>None\<close> is the undefined that an event without keys gives.\<close>

record event_count =
  ev_name :: "string option"
  ev_count :: nat

record command_section =
  cmd_name :: string
  filteredOptions :: "(string \<times> jsval) list"
  isRunInService :: bool

record service_section =
  numberOfCustomPlugins :: nat
  hasCustomResourcesDefined :: bool
  hasVariablesInCustomSectionDefined :: bool
  hasCustomVariableSyntaxDefined :: bool

record provider_section =
  prov_name :: jsval
  prov_runtime :: jsval
  prov_stage :: jsval
  prov_region :: jsval

record functions_section =
  numberOfFunctions :: nat
  memorySizeAndTimeoutPerFunction :: "memorySizeAndTimeoutObject list"

record events_section =
  numberOfEvents :: nat
  numberOfEventsPerType :: "event_count list"
  eventNamesPerFunction :: "string option list list"

record general_section =
  gen_userId :: jsval
  gen_context :: jsval
  timestamp :: int
  timezone :: string
  operatingSystem :: string
  userAgent :: string
  serverlessVersion :: jsval
  nodeJsVersion :: string
  gen_isDockerContainer :: bool
  isCISystem :: bool
  ciSystem :: jsval
  platformId :: "jsval option"

record aws_section =
  hasIAMAuthorizer :: bool
  hasCustomAuthorizer :: bool
  hasCognitoAuthorizer :: bool

record properties =
  prop_version :: nat
  prop_command :: command_section
  prop_service :: service_section
  prop_provider :: provider_section
  prop_functions :: functions_section
  prop_events :: events_section
  prop_general :: general_section
  prop_aws :: "aws_section option"

record data =
  data_userId :: jsval
  data_event :: string
  data_properties :: properties

section \<open>Lodash and \<^verbatim>\<open>Number\<close>\<close>

text \<open>
  \<^verbatim>\<open>Number(v)\<close>: undefined is NaN, null is 0, a boolean is 0 or 1, a number is itself; a
  string, an array and an object go through the host.
\<close>

fun Number_js :: "host \<Rightarrow> jsval \<Rightarrow> error + jsnum" where
  "Number_js h Undefined = Inr NaN"
| "Number_js h Null = Inr (Fin 0)"
| "Number_js h (Bool b) = Inr (Fin (if b then 1 else 0))"
| "Number_js h (Num n) = Inr n"
| "Number_js h (Str s) = Inr (StringToNumber h s)"
| "Number_js h (Arr xs) = ObjectToNumber h (Arr xs)"
| "Number_js h (Obj kvs) = ObjectToNumber h (Obj kvs)"

text \<open>
  Lodash's \<^verbatim>\<open>_.size\<close>: 0 for undefined and null, the length of a string or array, the
  number of own keys of an object; but an object whose \<^verbatim>\<open>length\<close> property is a valid
  array length counts as array-like and has that length as its size. Numbers and booleans
  have no keys.
\<close>

definition isLength :: "jsval \<Rightarrow> nat option" where
  "isLength v =
     (case v of
        Num (Fin r) \<Rightarrow>
          if - 1 < r \<and> of_int \<lfloor>r\<rfloor> = r \<and> r \<le> 9007199254740991 then Some (nat \<lfloor>r\<rfloor>) else None
      | _ \<Rightarrow> None)"

fun size_lodash :: "jsval \<Rightarrow> nat" where
  "size_lodash Undefined = 0"
| "size_lodash Null = 0"
| "size_lodash (Bool b) = 0"
| "size_lodash (Num n) = 0"
| "size_lodash (Str s) = length s"
| "size_lodash (Arr xs) = length xs"
| "size_lodash (Obj kvs) =
     (case map_of kvs ''length'' of
        None \<Rightarrow> length kvs
      | Some l \<Rightarrow> (case isLength l of Some n \<Rightarrow> n | None \<Rightarrow> length kvs))"

text \<open>A loop whose body can throw: the first exception ends it.\<close>

fun mapE :: "('a \<Rightarrow> error + 'b) \<Rightarrow> 'a list \<Rightarrow> error + 'b list" where
  "mapE f [] = Inr []"
| "mapE f (x # xs) = bindE (f x) (\<lambda>y. bindE (mapE f xs) (\<lambda>ys. Inr (y # ys)))"

fun foldE :: "('a \<Rightarrow> 's \<Rightarrow> error + 's) \<Rightarrow> 'a list \<Rightarrow> 's \<Rightarrow> error + 's" where
  "foldE f [] s = Inr s"
| "foldE f (x # xs) s = bindE (f x s) (foldE f xs)"

section \<open>\<^verbatim>\<open>logStat\<close>\<close>

subsection \<open>Whitelisted options (lines 144 to 155)\<close>

definition whitelistedOptionKeys :: "string list" where
  "whitelistedOptionKeys = [''help'', ''disable'', ''enable'']"

definition filterOptions :: "(string \<times> jsval) list \<Rightarrow> (string \<times> jsval) list" where
  "filterOptions opts =
     (let optionKeys = map fst opts;
          filteredOptionKeys = filter (\<lambda>key. key \<in> set whitelistedOptionKeys) optionKeys
      in map (\<lambda>key. (key, case map_of opts key of Some v \<Rightarrow> v | None \<Rightarrow> Undefined))
           filteredOptionKeys)"

subsection \<open>Memory size and timeout of each function (lines 157 to 177)\<close>

text \<open>
  \<^verbatim>\<open>Number(func.X) || Number(this.serverless.service.provider.X) || dflt\<close>: the first
  operand that is truthy (neither 0 nor NaN) is the value; the provider is read only when
  the function's own value is falsy.
\<close>

definition numberOrDefault :: "host \<Rightarrow> utils \<Rightarrow> jsval \<Rightarrow> string \<Rightarrow> jsnum \<Rightarrow> error + jsnum" where
  "numberOrDefault h this own k dflt =
     bindE (Number_js h own) (\<lambda>n1.
       if truthy_num n1 then Inr n1
       else bindE (getProp (provider (service (this_serverless this))) k) (\<lambda>pv.
            bindE (Number_js h pv) (\<lambda>n2.
              if truthy_num n2 then Inr n2 else Inr dflt)))"

definition memorySizeAndTimeout :: "host \<Rightarrow> utils \<Rightarrow> function_spec \<Rightarrow> error + memorySizeAndTimeoutObject" where
  "memorySizeAndTimeout h this func =
     bindE (numberOrDefault h this (memorySize func) ''memorySize'' (Fin 1024)) (\<lambda>m.
     bindE (numberOrDefault h this (timeout func) ''timeout'' (Fin 6)) (\<lambda>t.
       Inr \<lparr>out_memorySize = m, out_timeout = t\<rparr>))"

definition memorySizeAndTimeoutLoop ::
  "host \<Rightarrow> utils \<Rightarrow> (string \<times> function_spec) list \<Rightarrow> error + memorySizeAndTimeoutObject list" where
  "memorySizeAndTimeoutLoop h this fs =
     (if length fs \<noteq> 0 then mapE (\<lambda>(fname, func). memorySizeAndTimeout h this func) fs
      else Inr [])"

subsection \<open>Events and authorizers (lines 179 to 238)\<close>

text \<open>Lines 194 to 202: increment the first entry of that name, or append a new one.\<close>

fun tally :: "string option \<Rightarrow> event_count list \<Rightarrow> event_count list" where
  "tally name [] = [\<lparr>ev_name = name, ev_count = 1\<rparr>]"
| "tally name (e # es) =
     (if ev_name e = name then e\<lparr>ev_count := ev_count e + 1\<rparr> # es else e # tally name es)"

text \<open>The accumulators of the event loop, shared by all functions.\<close>

record event_state =
  st_numberOfEventsPerType :: "event_count list"
  st_eventNamesPerFunction :: "string option list list"
  st_hasIAMAuthorizer :: bool
  st_hasCustomAuthorizer :: bool
  st_hasCognitoAuthorizer :: bool

definition isString :: "jsval \<Rightarrow> bool" where
  "isString v = (case v of Str s \<Rightarrow> True | _ \<Rightarrow> False)"

text \<open>Lines 206 to 209. The authorizer is truthy here.\<close>

definition iamCondition :: "jsval \<Rightarrow> error + bool" where
  "iamCondition authorizer =
     bindE (if isString authorizer
            then bindE (call_toUpperCase authorizer) (\<lambda>u. Inr (u = ''AWS_IAM''))
            else Inr False) (\<lambda>c1.
       if c1 then Inr True
       else bindE (getProp authorizer ''type'') (\<lambda>ty.
              if truthy ty
              then bindE (call_toUpperCase ty) (\<lambda>u. Inr (u = ''AWS_IAM''))
              else Inr False))"

text \<open>Lines 218 to 223.\<close>

definition customCondition :: "jsval \<Rightarrow> error + bool" where
  "customCondition authorizer =
     bindE (if isString authorizer
            then bindE (call_toUpperCase authorizer) (\<lambda>u.
                   if u \<noteq> ''AWS_IAM''
                   then bindE (call_includes authorizer ''arn:aws:cognito-idp'') (\<lambda>i. Inr (\<not> i))
                   else Inr False)
            else Inr False) (\<lambda>c1.
       if c1 then Inr True
       else bindE (getProp authorizer ''name'') (\<lambda>nm.
              if truthy nm then Inr True
              else bindE (getProp authorizer ''arn'') (\<lambda>arn.
                     if truthy arn then call_includes arn ''arn:aws:lambda'' else Inr False)))"

text \<open>Lines 226 to 229.\<close>

definition cognitoCondition :: "jsval \<Rightarrow> error + bool" where
  "cognitoCondition authorizer =
     bindE (if isString authorizer
            then call_includes authorizer ''arn:aws:cognito-idp''
            else Inr False) (\<lambda>c1.
       if c1 then Inr True
       else bindE (getProp authorizer ''arn'') (\<lambda>arn.
              if truthy arn then call_includes arn ''arn:aws:cognito-idp'' else Inr False))"

text \<open>Lines 205 to 232 for one event: which of the three assignments it triggers. Nothing
  is classified unless \<^verbatim>\<open>event.http\<close> and \<^verbatim>\<open>event.http.authorizer\<close> are truthy.\<close>

definition authorizerConditions :: "jsval \<Rightarrow> error + bool \<times> bool \<times> bool" where
  "authorizerConditions event =
     bindE (getProp event ''http'') (\<lambda>http.
       if \<not> truthy http then Inr (False, False, False)
       else bindE (getProp http ''authorizer'') (\<lambda>authorizer.
         if \<not> truthy authorizer then Inr (False, False, False)
         else bindE (iamCondition authorizer) (\<lambda>iam.
              bindE (customCondition authorizer) (\<lambda>cust.
              bindE (cognitoCondition authorizer) (\<lambda>cog.
                Inr (iam, cust, cog))))))"

text \<open>The three flags are only ever set to true, never cleared.\<close>

definition classifyAuthorizer :: "jsval \<Rightarrow> event_state \<Rightarrow> error + event_state" where
  "classifyAuthorizer event st =
     bindE (authorizerConditions event) (\<lambda>(iam, cust, cog).
       Inr (st\<lparr>st_hasIAMAuthorizer := st_hasIAMAuthorizer st \<or> iam,
               st_hasCustomAuthorizer := st_hasCustomAuthorizer st \<or> cust,
               st_hasCognitoAuthorizer := st_hasCognitoAuthorizer st \<or> cog\<rparr>))"

text \<open>Line 191: \<^verbatim>\<open>Object.keys(event)[0]\<close>.\<close>

definition eventName :: "jsval \<Rightarrow> error + string option" where
  "eventName event =
     bindE (Object_keys event) (\<lambda>ks. Inr (case ks of [] \<Rightarrow> None | k # _ \<Rightarrow> Some k))"

text \<open>The body of \<^verbatim>\<open>func.events.forEach\<close> (lines 190 to 233); the second component is
  \<^verbatim>\<open>funcEventsArray\<close>.\<close>

definition eventStep ::
  "jsval \<Rightarrow> event_state \<times> string option list \<Rightarrow> error + event_state \<times> string option list" where
  "eventStep event acc =
     (case acc of (st, funcEventsArray) \<Rightarrow>
        bindE (eventName event) (\<lambda>name.
        bindE (classifyAuthorizer event
                 (st\<lparr>st_numberOfEventsPerType := tally name (st_numberOfEventsPerType st)\<rparr>))
          (\<lambda>st'. Inr (st', funcEventsArray @ [name]))))"

text \<open>
  The body of the loop over the functions (lines 186 to 237). A truthy \<^verbatim>\<open>func.events\<close>
  that is not an array has no \<^verbatim>\<open>forEach\<close> to call.
\<close>

definition functionStep :: "string \<times> function_spec \<Rightarrow> event_state \<Rightarrow> error + event_state" where
  "functionStep f st =
     (case f of (fname, func) \<Rightarrow>
        if truthy (events func) then
          (case events func of
             Arr evs \<Rightarrow>
               bindE (foldE eventStep evs (st, [])) (\<lambda>(st', funcEventsArray).
                 Inr (st'\<lparr>st_eventNamesPerFunction :=
                            st_eventNamesPerFunction st' @ [funcEventsArray]\<rparr>))
           | _ \<Rightarrow> Inl TypeError)
        else Inr st)"

definition initialEventState :: event_state where
  "initialEventState =
     \<lparr>st_numberOfEventsPerType = [], st_eventNamesPerFunction = [],
      st_hasIAMAuthorizer = False, st_hasCustomAuthorizer = False,
      st_hasCognitoAuthorizer = False\<rparr>"

definition eventLoop :: "(string \<times> function_spec) list \<Rightarrow> error + event_state" where
  "eventLoop fs =
     (if length fs \<noteq> 0 then foldE functionStep fs initialEventState
      else Inr initialEventState)"

subsection \<open>Resources and variable syntax (lines 240 to 257)\<close>

text \<open>\<^verbatim>\<open>resources && resources.X && Object.keys(resources.X).length\<close>, as a condition.\<close>

definition sectionDefined :: "jsval \<Rightarrow> string \<Rightarrow> error + bool" where
  "sectionDefined res k =
     (if \<not> truthy res then Inr False
      else bindE (getProp res k) (\<lambda>sect.
             if \<not> truthy sect then Inr False
             else bindE (Object_keys sect) (\<lambda>ks. Inr (length ks \<noteq> 0))))"

definition customResourcesDefined :: "jsval \<Rightarrow> error + bool" where
  "customResourcesDefined res =
     bindE (sectionDefined res ''Resources'') (\<lambda>r.
     bindE (sectionDefined res ''Outputs'') (\<lambda>out.
       Inr (r \<or> out)))"

text \<open>The source's literal \<^verbatim>\<open>'\\${([ :a-zA-Z0-9._,\\-\\/\\(\\)]+?)}'\<close>; character 0x5C is the
  backslash.\<close>

definition defaultVariableSyntax :: string where
  "defaultVariableSyntax =
     CHR 0x5C # ''${([ :a-zA-Z0-9._,'' @ CHR 0x5C # ''-'' @ CHR 0x5C # ''/'' @
     CHR 0x5C # ''('' @ CHR 0x5C # '')]+?)}''"

definition customVariableSyntaxDefined :: "jsval \<Rightarrow> error + bool" where
  "customVariableSyntaxDefined prov =
     (if \<not> truthy prov then Inr False
      else bindE (getProp prov ''variableSyntax'') (\<lambda>vs.
             Inr (truthy vs \<and> vs \<noteq> Str defaultVariableSyntax)))"

subsection \<open>The payload and the promise (lines 121 to 325)\<close>

text \<open>Line 311: \<^verbatim>\<open>provider && provider.name && provider.name.toUpperCase() === 'AWS'\<close>.\<close>

definition providerIsAWS :: "jsval \<Rightarrow> error + bool" where
  "providerIsAWS prov =
     (if \<not> truthy prov then Inr False
      else bindE (getProp prov ''name'') (\<lambda>nm.
             if \<not> truthy nm then Inr False
             else bindE (call_toUpperCase nm) (\<lambda>u. Inr (u = ''AWS''))))"

text \<open>\<^verbatim>\<open>commands.join(' ')\<close>.\<close>

fun join :: "string list \<Rightarrow> string \<Rightarrow> string" where
  "join [] sep = []"
| "join [x] sep = x"
| "join (x # y # ys) sep = x @ sep @ join (y # ys) sep"

text \<open>
  The object \<^verbatim>\<open>data\<close> as it is when it is resolved: the literal of lines 259 to 304,
  \<^verbatim>\<open>platformId\<close> added when \<^verbatim>\<open>config.userId\<close> is truthy (line 306) and the \<^verbatim>\<open>aws\<close>
  section added for an AWS provider (line 311). Its arguments are the values computed
  before it.
\<close>

definition makeData ::
  "host \<Rightarrow> serverless \<Rightarrow> jsval \<Rightarrow> user_config \<Rightarrow> memorySizeAndTimeoutObject list \<Rightarrow>
   event_state \<Rightarrow> bool \<Rightarrow> bool \<Rightarrow> provider_section \<Rightarrow> bool \<Rightarrow> data" where
  "makeData h sls context cfg memTimeouts st hasResources hasSyntax prov isAWS =
     \<lparr>data_userId = frameworkId cfg,
      data_event = ''framework_stat'',
      data_properties =
        \<lparr>prop_version = 2,
         prop_command =
           \<lparr>cmd_name = join (commands (processedInput sls)) '' '',
            filteredOptions = filterOptions (options (processedInput sls)),
            isRunInService = truthy (servicePath (config sls))\<rparr>,
         prop_service =
           \<lparr>numberOfCustomPlugins = size_lodash (plugins (service sls)),
            hasCustomResourcesDefined = hasResources,
            hasVariablesInCustomSectionDefined = truthy (custom (service sls)),
            hasCustomVariableSyntaxDefined = hasSyntax\<rparr>,
         prop_provider = prov,
         prop_functions =
           \<lparr>numberOfFunctions = length (functions (service sls)),
            memorySizeAndTimeoutPerFunction = memTimeouts\<rparr>,
         prop_events =
           \<lparr>numberOfEvents = length (st_numberOfEventsPerType st),
            numberOfEventsPerType = st_numberOfEventsPerType st,
            eventNamesPerFunction = st_eventNamesPerFunction st\<rparr>,
         prop_general =
           \<lparr>gen_userId = frameworkId cfg,
            gen_context = context,
            timestamp = date_getTime h,
            timezone = date_timezone h,
            operatingSystem = process_platform h,
            userAgent =
              (case env_SERVERLESS_DASHBOARD h of
                 None \<Rightarrow> ''cli''
               | Some v \<Rightarrow> if v \<noteq> [] then ''dashboard'' else ''cli''),
            serverlessVersion = version sls,
            nodeJsVersion = process_version h,
            gen_isDockerContainer = isDockerContainer h,
            isCISystem = ci_isCI h,
            ciSystem = ci_name h,
            platformId = (if truthy (userId cfg) then Some (userId cfg) else None)\<rparr>,
         prop_aws =
           (if isAWS
            then Some \<lparr>hasIAMAuthorizer = st_hasIAMAuthorizer st,
                       hasCustomAuthorizer = st_hasCustomAuthorizer st,
                       hasCognitoAuthorizer = st_hasCognitoAuthorizer st\<rparr>
            else None)\<rparr>\<rparr>"

text \<open>Lines 275 to 280: four reads of \<^verbatim>\<open>provider\<close>, which throw when it is undefined or
  null.\<close>

definition providerSection :: "jsval \<Rightarrow> error + provider_section" where
  "providerSection prov =
     bindE (getProp prov ''name'') (\<lambda>pname.
     bindE (getProp prov ''runtime'') (\<lambda>pruntime.
     bindE (getProp prov ''stage'') (\<lambda>pstage.
     bindE (getProp prov ''region'') (\<lambda>pregion.
       Inr \<lparr>prov_name = pname, prov_runtime = pruntime,
            prov_stage = pstage, prov_region = pregion\<rparr>))))"

text \<open>
  The executor of the promise (lines 136 to 319), after \<^verbatim>\<open>getConfig\<close> has returned
  \<open>cfg\<close>. \<open>Inr None\<close> is \<^verbatim>\<open>resolve()\<close> with no value, \<open>Inr (Some d)\<close> is
  \<^verbatim>\<open>resolve(data)\<close>, and \<open>Inl e\<close> is an exception thrown inside the executor.
\<close>

definition buildData ::
  "host \<Rightarrow> utils \<Rightarrow> serverless \<Rightarrow> jsval \<Rightarrow> user_config \<Rightarrow> error + data option" where
  "buildData h this sls context cfg =
     (if truthy (trackingDisabled cfg) then Inr None
      else
        bindE (memorySizeAndTimeoutLoop h this (functions (service sls))) (\<lambda>memTimeouts.
        bindE (eventLoop (functions (service sls))) (\<lambda>st.
        bindE (customResourcesDefined (resources (service sls))) (\<lambda>hasResources.
        bindE (customVariableSyntaxDefined (provider (service sls))) (\<lambda>hasSyntax.
        bindE (providerSection (provider (service sls))) (\<lambda>prov.
        bindE (providerIsAWS (provider (service sls))) (\<lambda>isAWS.
          Inr (Some (makeData h sls context cfg memTimeouts st hasResources hasSyntax
                       prov isAWS)))))))))"

text \<open>
  How the promise that \<^verbatim>\<open>logStat\<close> returns settles, and the payloads handed to
  \<^verbatim>\<open>segment.track\<close> (at most one). An exception inside the executor rejects the promise,
  and the \<^verbatim>\<open>then\<close> callback, the only caller of \<^verbatim>\<open>segment.track\<close>, is skipped.
\<close>

datatype settled = Fulfilled | Rejected error

record outcome =
  promise :: settled
  tracked :: "data list"

definition logStat :: "host \<Rightarrow> utils \<Rightarrow> serverless \<Rightarrow> jsval \<Rightarrow> outcome" where
  "logStat h this sls context0 =
     (let context = (if truthy context0 then context0 else Str ''usage'') in
      case bindE (getConfig h) (buildData h this sls context) of
        Inl e \<Rightarrow> \<lparr>promise = Rejected e, tracked = []\<rparr>
      | Inr None \<Rightarrow> \<lparr>promise = Fulfilled, tracked = []\<rparr>
      | Inr (Some d) \<Rightarrow> \<lparr>promise = Fulfilled, tracked = [d]\<rparr>)"

section \<open>The vocabulary of the specification\<close>

text \<open>The event bindings of a service: those of every function whose \<^verbatim>\<open>events\<close> is an
  array, in declaration order; first function by function, then all together.\<close>

definition declaredEvents :: "(string \<times> function_spec) list \<Rightarrow> jsval list list" where
  "declaredEvents fs =
     concat (map (\<lambda>(fname, func). case events func of Arr evs \<Rightarrow> [evs] | _ \<Rightarrow> []) fs)"

definition allEvents :: "(string \<times> function_spec) list \<Rightarrow> jsval list" where
  "allEvents fs = concat (declaredEvents fs)"

text \<open>The event-type name of a binding: its first key, if it has one.\<close>

definition bindingName :: "jsval \<Rightarrow> string option" where
  "bindingName event =
     (case Object_keys event of Inr (k # ks) \<Rightarrow> Some k | _ \<Rightarrow> None)"

text \<open>An own property of an object; nothing else has one of the names used here.\<close>

definition field :: "jsval \<Rightarrow> string \<Rightarrow> jsval option" where
  "field v k = (case v of Obj kvs \<Rightarrow> map_of kvs k | _ \<Rightarrow> None)"

text \<open>The authorizer of an http binding: the \<^verbatim>\<open>authorizer\<close> field of the descriptor
  under the binding's \<^verbatim>\<open>http\<close> key.\<close>

definition httpAuthorizer :: "jsval \<Rightarrow> jsval option" where
  "httpAuthorizer event =
     (case field event ''http'' of Some http \<Rightarrow> field http ''authorizer'' | None \<Rightarrow> None)"

definition equalsIgnoreCase :: "string \<Rightarrow> string \<Rightarrow> bool" where
  "equalsIgnoreCase s t = (toUpperCase s = toUpperCase t)"

text \<open>IAM: the string \<^verbatim>\<open>AWS_IAM\<close> in any case, or an object whose \<^verbatim>\<open>type\<close> is.\<close>

definition isIAMAuthorizer :: "jsval \<Rightarrow> bool" where
  "isIAMAuthorizer authorizer =
     (case authorizer of
        Str s \<Rightarrow> equalsIgnoreCase s ''AWS_IAM''
      | Obj kvs \<Rightarrow>
          (case map_of kvs ''type'' of Some (Str t) \<Rightarrow> equalsIgnoreCase t ''AWS_IAM'' | _ \<Rightarrow> False)
      | _ \<Rightarrow> False)"

definition hasIAMBinding :: "jsval \<Rightarrow> bool" where
  "hasIAMBinding event =
     (case httpAuthorizer event of Some a \<Rightarrow> isIAMAuthorizer a | None \<Rightarrow> False)"

text \<open>Cognito: a string containing \<^verbatim>\<open>arn:aws:cognito-idp\<close>, or an object whose \<^verbatim>\<open>arn\<close>
  is such a string.\<close>

definition isCognitoAuthorizer :: "jsval \<Rightarrow> bool" where
  "isCognitoAuthorizer authorizer =
     (case authorizer of
        Str s \<Rightarrow> sublist ''arn:aws:cognito-idp'' s
      | Obj kvs \<Rightarrow>
          (case map_of kvs ''arn'' of Some (Str r) \<Rightarrow> sublist ''arn:aws:cognito-idp'' r | _ \<Rightarrow> False)
      | _ \<Rightarrow> False)"

definition hasCognitoBinding :: "jsval \<Rightarrow> bool" where
  "hasCognitoBinding event =
     (case httpAuthorizer event of Some a \<Rightarrow> isCognitoAuthorizer a | None \<Rightarrow> False)"

text \<open>Whether a binding triggers an assignment of the code, for a binding whose
  classification does not throw.\<close>

definition triggersIAM :: "jsval \<Rightarrow> bool" where
  "triggersIAM event =
     (case authorizerConditions event of Inr (iam, cust, cog) \<Rightarrow> iam | Inl e \<Rightarrow> False)"

definition triggersCustom :: "jsval \<Rightarrow> bool" where
  "triggersCustom event =
     (case authorizerConditions event of Inr (iam, cust, cog) \<Rightarrow> cust | Inl e \<Rightarrow> False)"

definition triggersCognito :: "jsval \<Rightarrow> bool" where
  "triggersCognito event =
     (case authorizerConditions event of Inr (iam, cust, cog) \<Rightarrow> cog | Inl e \<Rightarrow> False)"

text \<open>The tally after a sequence of event names, from the tally \<open>t\<close>.\<close>

definition tallyAll :: "string option list \<Rightarrow> event_count list \<Rightarrow> event_count list" where
  "tallyAll names t = foldl (\<lambda>acc name. tally name acc) t names"

text \<open>The count that a tally records for a name: that of its first entry of that name,
  0 when it has none.\<close>

fun countOf :: "event_count list \<Rightarrow> string option \<Rightarrow> nat" where
  "countOf [] x = 0"
| "countOf (e # es) x = (if ev_name e = x then ev_count e else countOf es x)"

text \<open>A value that exists and has at least one key.\<close>

definition hasAtLeastOneKey :: "jsval \<Rightarrow> bool" where
  "hasAtLeastOneKey v = (case Object_keys v of Inr (k # ks) \<Rightarrow> True | _ \<Rightarrow> False)"

definition existsWithKeys :: "jsval \<Rightarrow> string \<Rightarrow> bool" where
  "existsWithKeys res k = (case field res k of Some v \<Rightarrow> hasAtLeastOneKey v | None \<Rightarrow> False)"

text \<open>
  The fallback chain of the specification, read literally: a value counts when it is
  present and a number.
\<close>

definition specChain :: "jsval \<Rightarrow> jsval \<Rightarrow> jsnum \<Rightarrow> jsnum" where
  "specChain own dflt final =
     (case own of Num n \<Rightarrow> n | _ \<Rightarrow> (case dflt of Num m \<Rightarrow> m | _ \<Rightarrow> final))"

text \<open>
  The chain the code implements: a value counts when \<^verbatim>\<open>Number\<close> makes of it a number
  other than 0 and NaN. Undefined, null, false, 0 and NaN never count, true counts as 1,
  and a string counts as what it parses to.
\<close>

definition counts :: "host \<Rightarrow> jsval \<Rightarrow> jsnum option" where
  "counts h v =
     (case v of
        Num n \<Rightarrow> if n = NaN \<or> n = Fin 0 then None else Some n
      | Bool b \<Rightarrow> if b then Some (Fin 1) else None
      | Str s \<Rightarrow> if StringToNumber h s = NaN \<or> StringToNumber h s = Fin 0 then None
                 else Some (StringToNumber h s)
      | _ \<Rightarrow> None)"

definition chain :: "host \<Rightarrow> jsval \<Rightarrow> jsval \<Rightarrow> jsnum \<Rightarrow> jsnum" where
  "chain h own dflt final =
     (case counts h own of
        Some n \<Rightarrow> n
      | None \<Rightarrow> (case counts h dflt of Some m \<Rightarrow> m | None \<Rightarrow> final))"

definition isPrimitive :: "jsval \<Rightarrow> bool" where
  "isPrimitive v = (case v of Arr xs \<Rightarrow> False | Obj kvs \<Rightarrow> False | _ \<Rightarrow> True)"

section \<open>Example inputs\<close>

text \<open>
  A host and a service to run the model on. The examples pass no string, array or object
  to \<^verbatim>\<open>Number\<close>, so the two conversions of the host are never consulted by them.
\<close>

definition exampleConfig :: user_config where
  "exampleConfig =
     \<lparr>frameworkId = Str ''b6d3a9f0'', trackingDisabled = Bool False, userId = Undefined\<rparr>"

definition exampleHost :: host where
  "exampleHost =
     \<lparr>getConfig = Inr exampleConfig,
      StringToNumber = (\<lambda>s. NaN),
      ObjectToNumber = (\<lambda>v. Inr NaN),
      date_getTime = 1500000000000,
      date_timezone = ''GMT+0000'',
      process_platform = ''linux'',
      process_version = ''v6.10.0'',
      env_SERVERLESS_DASHBOARD = None,
      isDockerContainer = False,
      ci_isCI = False,
      ci_name = Null\<rparr>"

definition exampleProvider :: "string \<Rightarrow> jsval" where
  "exampleProvider pname =
     Obj [(''name'', Str pname), (''runtime'', Str ''nodejs6.10''),
          (''stage'', Str ''dev''), (''region'', Str ''us-east-1'')]"

definition exampleServerless :: "string \<Rightarrow> (string \<times> function_spec) list \<Rightarrow> serverless" where
  "exampleServerless pname fs =
     \<lparr>service =
        \<lparr>resources = Undefined, provider = exampleProvider pname, functions = fs,
         plugins = Undefined, custom = Undefined\<rparr>,
      processedInput = \<lparr>options = [(''stage'', Str ''dev'')], commands = [''deploy'']\<rparr>,
      config = \<lparr>servicePath = Str ''/srv/app''\<rparr>,
      version = Str ''1.26.0''\<rparr>"

definition exampleUtils :: "string \<Rightarrow> (string \<times> function_spec) list \<Rightarrow> utils" where
  "exampleUtils pname fs = \<lparr>this_serverless = exampleServerless pname fs\<rparr>"

definition httpEvent :: "jsval \<Rightarrow> jsval" where
  "httpEvent authorizer =
     Obj [(''http'', Obj [(''path'', Str ''users''), (''method'', Str ''get''),
                          (''authorizer'', authorizer)])]"

definition plainEvent :: "string \<Rightarrow> jsval" where
  "plainEvent name = Obj [(name, Obj [])]"

definition functionWith :: "jsval \<Rightarrow> function_spec" where
  "functionWith evs = \<lparr>memorySize = Undefined, timeout = Undefined, events = evs\<rparr>"

section \<open>Basic facts\<close>

lemma bindE_Inl [simp]: "bindE (Inl e) f = Inl e"
  by (simp add: bindE_def)

lemma bindE_Inr [simp]: "bindE (Inr v) f = f v"
  by (simp add: bindE_def)

lemma bindE_eq_Inr: "bindE m f = Inr y \<longleftrightarrow> (\<exists>v. m = Inr v \<and> f v = Inr y)"
  by (cases m) simp_all

text \<open>A payload reaches \<^verbatim>\<open>segment.track\<close> only when the configuration was read and the
  executor resolved with it.\<close>

lemma logStat_tracked:
  assumes "tracked (logStat h this sls c) = [d]"
  shows "\<exists>cfg. getConfig h = Inr cfg \<and>
           buildData h this sls (if truthy c then c else Str ''usage'') cfg = Inr (Some d)"
proof (cases "getConfig h")
  case (Inl e)
  with assms show ?thesis by (simp add: logStat_def)
next
  case (Inr cfg)
  with assms show ?thesis
    by (cases "truthy c") (simp_all add: logStat_def Let_def split: sum.splits option.splits)
qed

lemma buildData_Some:
  assumes "buildData h this sls c cfg = Inr (Some d)"
  shows "\<exists>mts st hasR hasS prov isAWS.
           memorySizeAndTimeoutLoop h this (functions (service sls)) = Inr mts \<and>
           eventLoop (functions (service sls)) = Inr st \<and>
           customResourcesDefined (resources (service sls)) = Inr hasR \<and>
           providerIsAWS (provider (service sls)) = Inr isAWS \<and>
           d = makeData h sls c cfg mts st hasR hasS prov isAWS"
  using assms
  by (clarsimp simp add: buildData_def bindE_eq_Inr split: if_splits) blast

lemma makeData_events:
  "prop_events (data_properties (makeData h sls c cfg mts st hasR hasS prov isAWS)) =
     \<lparr>numberOfEvents = length (st_numberOfEventsPerType st),
      numberOfEventsPerType = st_numberOfEventsPerType st,
      eventNamesPerFunction = st_eventNamesPerFunction st\<rparr>"
  by (simp add: makeData_def)

lemma makeData_aws:
  "prop_aws (data_properties (makeData h sls c cfg mts st hasR hasS prov isAWS)) =
     (if isAWS
      then Some \<lparr>hasIAMAuthorizer = st_hasIAMAuthorizer st,
                 hasCustomAuthorizer = st_hasCustomAuthorizer st,
                 hasCognitoAuthorizer = st_hasCognitoAuthorizer st\<rparr>
      else None)"
  by (simp add: makeData_def)

lemma makeData_functions:
  "memorySizeAndTimeoutPerFunction (prop_functions (data_properties
     (makeData h sls c cfg mts st hasR hasS prov isAWS))) = mts"
  by (simp add: makeData_def)

lemma makeData_resources:
  "hasCustomResourcesDefined (prop_service (data_properties
     (makeData h sls c cfg mts st hasR hasS prov isAWS))) = hasR"
  by (simp add: makeData_def)

section \<open>The event loop\<close>

text \<open>What a run of the loop over the functions that does not throw leaves in its
  accumulators, in terms of the bindings it visited.\<close>

lemma eventName_bindingName: "eventName ev = Inr n \<Longrightarrow> n = bindingName ev"
  by (cases "Object_keys ev")
    (auto simp: eventName_def bindingName_def split: list.splits)

lemma classifyAuthorizer_Inr:
  assumes "classifyAuthorizer ev st = Inr st'"
  shows "\<exists>c. authorizerConditions ev = Inr c \<and>
           st_numberOfEventsPerType st' = st_numberOfEventsPerType st \<and>
           st_eventNamesPerFunction st' = st_eventNamesPerFunction st \<and>
           st_hasIAMAuthorizer st' = (st_hasIAMAuthorizer st \<or> triggersIAM ev) \<and>
           st_hasCustomAuthorizer st' = (st_hasCustomAuthorizer st \<or> triggersCustom ev) \<and>
           st_hasCognitoAuthorizer st' = (st_hasCognitoAuthorizer st \<or> triggersCognito ev)"
  using assms
  by (auto simp: classifyAuthorizer_def bindE_eq_Inr triggersIAM_def triggersCustom_def
      triggersCognito_def)

lemma eventStep_Inr:
  assumes "eventStep ev (st, names) = Inr (st', names')"
  shows "(\<exists>c. authorizerConditions ev = Inr c) \<and>
         names' = names @ [bindingName ev] \<and>
         st_numberOfEventsPerType st' = tally (bindingName ev) (st_numberOfEventsPerType st) \<and>
         st_eventNamesPerFunction st' = st_eventNamesPerFunction st \<and>
         st_hasIAMAuthorizer st' = (st_hasIAMAuthorizer st \<or> triggersIAM ev) \<and>
         st_hasCustomAuthorizer st' = (st_hasCustomAuthorizer st \<or> triggersCustom ev) \<and>
         st_hasCognitoAuthorizer st' = (st_hasCognitoAuthorizer st \<or> triggersCognito ev)"
proof -
  from assms obtain n where n: "eventName ev = Inr n"
    and c: "classifyAuthorizer ev
              (st\<lparr>st_numberOfEventsPerType := tally n (st_numberOfEventsPerType st)\<rparr>) = Inr st'"
    and nm: "names' = names @ [n]"
    by (auto simp: eventStep_def bindE_eq_Inr)
  from n have "n = bindingName ev" by (rule eventName_bindingName)
  with classifyAuthorizer_Inr [OF c] nm show ?thesis by auto
qed

lemma foldE_eventStep:
  assumes "foldE eventStep evs (st, names) = Inr (st', names')"
  shows "(\<forall>ev\<in>set evs. \<exists>c. authorizerConditions ev = Inr c) \<and>
         names' = names @ map bindingName evs \<and>
         st_numberOfEventsPerType st' = tallyAll (map bindingName evs) (st_numberOfEventsPerType st) \<and>
         st_eventNamesPerFunction st' = st_eventNamesPerFunction st \<and>
         st_hasIAMAuthorizer st' = (st_hasIAMAuthorizer st \<or> (\<exists>ev\<in>set evs. triggersIAM ev)) \<and>
         st_hasCustomAuthorizer st' = (st_hasCustomAuthorizer st \<or> (\<exists>ev\<in>set evs. triggersCustom ev)) \<and>
         st_hasCognitoAuthorizer st' = (st_hasCognitoAuthorizer st \<or> (\<exists>ev\<in>set evs. triggersCognito ev))"
  using assms
proof (induction evs arbitrary: st names)
  case Nil
  then show ?case by (simp add: tallyAll_def)
next
  case (Cons ev evs)
  from Cons.prems obtain st1 names1 where
    s1: "eventStep ev (st, names) = Inr (st1, names1)" and
    s2: "foldE eventStep evs (st1, names1) = Inr (st', names')"
    by (auto simp: bindE_eq_Inr)
  from eventStep_Inr [OF s1] Cons.IH [OF s2] show ?case
    by (simp add: tallyAll_def)
qed

lemma functionStep_Inr:
  assumes "functionStep (fname, func) st = Inr st'"
  shows "(\<forall>ev\<in>set (allEvents [(fname, func)]). \<exists>c. authorizerConditions ev = Inr c) \<and>
         st_numberOfEventsPerType st' =
           tallyAll (map bindingName (allEvents [(fname, func)])) (st_numberOfEventsPerType st) \<and>
         st_eventNamesPerFunction st' =
           st_eventNamesPerFunction st @ map (map bindingName) (declaredEvents [(fname, func)]) \<and>
         st_hasIAMAuthorizer st' =
           (st_hasIAMAuthorizer st \<or> (\<exists>ev\<in>set (allEvents [(fname, func)]). triggersIAM ev)) \<and>
         st_hasCustomAuthorizer st' =
           (st_hasCustomAuthorizer st \<or> (\<exists>ev\<in>set (allEvents [(fname, func)]). triggersCustom ev)) \<and>
         st_hasCognitoAuthorizer st' =
           (st_hasCognitoAuthorizer st \<or> (\<exists>ev\<in>set (allEvents [(fname, func)]). triggersCognito ev))"
proof (cases "events func")
  case (Arr evs)
  with assms obtain st1 names1 where
    f: "foldE eventStep evs (st, []) = Inr (st1, names1)" and
    st': "st' = st1\<lparr>st_eventNamesPerFunction := st_eventNamesPerFunction st1 @ [names1]\<rparr>"
    by (auto simp: functionStep_def bindE_eq_Inr)
  from foldE_eventStep [OF f] st' Arr show ?thesis
    by (simp add: allEvents_def declaredEvents_def)
qed (use assms in \<open>auto simp: functionStep_def allEvents_def declaredEvents_def tallyAll_def split: if_splits\<close>)

lemma allEvents_Cons: "allEvents (f # fs) = allEvents [f] @ allEvents fs"
  by (simp add: allEvents_def declaredEvents_def)

lemma declaredEvents_Cons: "declaredEvents (f # fs) = declaredEvents [f] @ declaredEvents fs"
  by (simp add: declaredEvents_def)

lemma tallyAll_append: "tallyAll (xs @ ys) t = tallyAll ys (tallyAll xs t)"
  by (simp add: tallyAll_def)

lemma foldE_functionStep:
  assumes "foldE functionStep fs st = Inr st'"
  shows "(\<forall>ev\<in>set (allEvents fs). \<exists>c. authorizerConditions ev = Inr c) \<and>
         st_numberOfEventsPerType st' =
           tallyAll (map bindingName (allEvents fs)) (st_numberOfEventsPerType st) \<and>
         st_eventNamesPerFunction st' =
           st_eventNamesPerFunction st @ map (map bindingName) (declaredEvents fs) \<and>
         st_hasIAMAuthorizer st' =
           (st_hasIAMAuthorizer st \<or> (\<exists>ev\<in>set (allEvents fs). triggersIAM ev)) \<and>
         st_hasCustomAuthorizer st' =
           (st_hasCustomAuthorizer st \<or> (\<exists>ev\<in>set (allEvents fs). triggersCustom ev)) \<and>
         st_hasCognitoAuthorizer st' =
           (st_hasCognitoAuthorizer st \<or> (\<exists>ev\<in>set (allEvents fs). triggersCognito ev))"
  using assms
proof (induction fs arbitrary: st)
  case Nil
  then show ?case by (simp add: allEvents_def declaredEvents_def tallyAll_def)
next
  case (Cons f fs)
  obtain fname func where f: "f = (fname, func)" by (cases f)
  from Cons.prems f obtain st1 where
    s1: "functionStep (fname, func) st = Inr st1" and
    s2: "foldE functionStep fs st1 = Inr st'"
    by (auto simp: bindE_eq_Inr)
  note A = functionStep_Inr [OF s1, folded f]
  note B = Cons.IH [OF s2]
  show ?case
    unfolding allEvents_Cons [of f fs] declaredEvents_Cons [of f fs]
    using A B by (simp add: tallyAll_append ball_Un bex_Un)
qed

lemma eventLoop_Inr:
  assumes "eventLoop fs = Inr st"
  shows "(\<forall>ev\<in>set (allEvents fs). \<exists>c. authorizerConditions ev = Inr c) \<and>
         st_numberOfEventsPerType st = tallyAll (map bindingName (allEvents fs)) [] \<and>
         st_eventNamesPerFunction st = map (map bindingName) (declaredEvents fs) \<and>
         st_hasIAMAuthorizer st = (\<exists>ev\<in>set (allEvents fs). triggersIAM ev) \<and>
         st_hasCustomAuthorizer st = (\<exists>ev\<in>set (allEvents fs). triggersCustom ev) \<and>
         st_hasCognitoAuthorizer st = (\<exists>ev\<in>set (allEvents fs). triggersCognito ev)"
proof (cases "fs = []")
  case True
  with assms show ?thesis
    by (auto simp: eventLoop_def initialEventState_def allEvents_def declaredEvents_def tallyAll_def)
next
  case False
  with assms have "foldE functionStep fs initialEventState = Inr st"
    by (simp add: eventLoop_def)
  from foldE_functionStep [OF this] show ?thesis
    by (simp add: initialEventState_def)
qed

section \<open>The authorizer conditions\<close>

lemma toUpperCase_AWS_IAM: "toUpperCase ''AWS_IAM'' = ''AWS_IAM''"
  by code_simp

lemma toUpperCase_AWS: "toUpperCase ''AWS'' = ''AWS''"
  by code_simp

lemma length_toUpperCase [simp]: "length (toUpperCase s) = length s"
  by (simp add: toUpperCase_def)

lemma sublist_length_le: "sublist xs ys \<Longrightarrow> length xs \<le> length ys"
  by (auto simp: sublist_def)

lemma cognito_not_IAM:
  assumes "sublist ''arn:aws:cognito-idp'' s"
  shows "toUpperCase s \<noteq> ''AWS_IAM''"
proof
  assume "toUpperCase s = ''AWS_IAM''"
  then have "length (toUpperCase s) = length ''AWS_IAM''" by simp
  then have "length s = 7" by simp
  moreover from assms have "length ''arn:aws:cognito-idp'' \<le> length s"
    by (rule sublist_length_le)
  ultimately show False by simp
qed

lemma toUpperCase_Nil [simp]: "toUpperCase [] = []"
  by (simp add: toUpperCase_def)

lemma field_Some_truthy: "field v k = Some w \<Longrightarrow> truthy v"
  by (cases v) (auto simp: field_def)

lemma field_getProp:
  "getProp v k = Inr w \<Longrightarrow> truthy w \<Longrightarrow> field v k = Some w"
  by (cases v) (auto simp: field_def split: option.splits)

lemma getProp_field:
  "field v k = Some w \<Longrightarrow> getProp v k = Inr w"
  by (cases v) (auto simp: field_def)

lemma iamCondition_Inr:
  assumes "iamCondition a = Inr b"
  shows "b = isIAMAuthorizer a"
proof (cases a)
  case (Str s)
  with assms show ?thesis
    by (auto simp: iamCondition_def isString_def isIAMAuthorizer_def equalsIgnoreCase_def
        toUpperCase_AWS_IAM split: if_splits)
next
  case (Obj kvs)
  show ?thesis
  proof (cases "map_of kvs ''type''")
    case None
    with assms Obj show ?thesis
      by (auto simp: iamCondition_def isString_def isIAMAuthorizer_def)
  next
    case (Some t)
    with assms Obj show ?thesis
      by (cases t)
        (auto simp: iamCondition_def isString_def isIAMAuthorizer_def equalsIgnoreCase_def
          toUpperCase_AWS_IAM split: if_splits)
  qed
qed (use assms in \<open>auto simp: iamCondition_def isString_def isIAMAuthorizer_def\<close>)

lemma isIAMAuthorizer_truthy: "isIAMAuthorizer a \<Longrightarrow> truthy a"
  by (cases a) (auto simp: isIAMAuthorizer_def equalsIgnoreCase_def toUpperCase_AWS_IAM)

lemma authorizerConditions_IAM:
  assumes "authorizerConditions ev = Inr (iam, cust, cog)"
  shows "iam = hasIAMBinding ev"
proof -
  from assms obtain http where h: "getProp ev ''http'' = Inr http"
    by (auto simp: authorizerConditions_def bindE_eq_Inr)
  show ?thesis
  proof (cases "truthy http")
    case False
    with assms h have "\<not> iam" by (simp add: authorizerConditions_def)
    moreover have "\<not> hasIAMBinding ev"
    proof
      assume "hasIAMBinding ev"
      then obtain a http' where f1: "field ev ''http'' = Some http'"
        and f2: "field http' ''authorizer'' = Some a"
        by (auto simp: hasIAMBinding_def httpAuthorizer_def split: option.splits)
      from getProp_field [OF f1] h have "http' = http" by simp
      with field_Some_truthy [OF f2] False show False by simp
    qed
    ultimately show ?thesis by simp
  next
    case True
    with h have fh: "field ev ''http'' = Some http" by (auto intro: field_getProp)
    from assms h True obtain a where a: "getProp http ''authorizer'' = Inr a"
      by (auto simp: authorizerConditions_def bindE_eq_Inr)
    show ?thesis
    proof (cases "truthy a")
      case False
      with assms h a True have "\<not> iam" by (simp add: authorizerConditions_def)
      moreover have "\<not> hasIAMBinding ev"
      proof
        assume "hasIAMBinding ev"
        with fh obtain a' where fa: "field http ''authorizer'' = Some a'" and i: "isIAMAuthorizer a'"
          by (auto simp: hasIAMBinding_def httpAuthorizer_def split: option.splits)
        from fa a have "a' = a" by (auto dest: getProp_field)
        with i False show False by (auto dest: isIAMAuthorizer_truthy)
      qed
      ultimately show ?thesis by simp
    next
      case Ta: True
      with a have fa: "field http ''authorizer'' = Some a" by (auto intro: field_getProp)
      from assms h a True Ta have "iamCondition a = Inr iam"
        by (auto simp: authorizerConditions_def bindE_eq_Inr)
      then have "iam = isIAMAuthorizer a" by (rule iamCondition_Inr)
      with fh fa show ?thesis by (simp add: hasIAMBinding_def httpAuthorizer_def)
    qed
  qed
qed

lemma isCognitoAuthorizer_truthy: "isCognitoAuthorizer a \<Longrightarrow> truthy a"
  by (cases a) (auto simp: isCognitoAuthorizer_def)

lemma cognitoCondition_Inr:
  assumes "cognitoCondition a = Inr b" and "isCognitoAuthorizer a"
  shows "b"
proof (cases a)
  case (Str s)
  with assms show ?thesis
    by (auto simp: cognitoCondition_def isString_def isCognitoAuthorizer_def split: if_splits)
next
  case (Obj kvs)
  with assms obtain r where r: "map_of kvs ''arn'' = Some (Str r)" "sublist ''arn:aws:cognito-idp'' r"
    by (auto simp: isCognitoAuthorizer_def split: option.splits jsval.splits)
  then have "r \<noteq> []" by auto
  with assms Obj r show ?thesis
    by (auto simp: cognitoCondition_def isString_def)
qed (use assms in \<open>auto simp: isCognitoAuthorizer_def\<close>)

lemma authorizerConditions_Cognito:
  assumes "authorizerConditions ev = Inr (iam, cust, cog)" and "hasCognitoBinding ev"
  shows "cog"
proof -
  from assms(2) obtain http a where fh: "field ev ''http'' = Some http"
    and fa: "field http ''authorizer'' = Some a" and c: "isCognitoAuthorizer a"
    by (auto simp: hasCognitoBinding_def httpAuthorizer_def split: option.splits)
  from fa have "truthy http" by (rule field_Some_truthy)
  moreover from c have "truthy a" by (rule isCognitoAuthorizer_truthy)
  moreover note getProp_field [OF fh] getProp_field [OF fa]
  ultimately have "cognitoCondition a = Inr cog"
    using assms(1) by (auto simp: authorizerConditions_def bindE_eq_Inr)
  with c show ?thesis by (auto dest: cognitoCondition_Inr)
qed

lemma authorizerConditions_string:
  assumes "httpAuthorizer ev = Some (Str s)" and "s \<noteq> []"
  shows "authorizerConditions ev =
           Inr (toUpperCase s = ''AWS_IAM'',
                toUpperCase s \<noteq> ''AWS_IAM'' \<and> \<not> sublist ''arn:aws:cognito-idp'' s,
                sublist ''arn:aws:cognito-idp'' s)"
proof -
  from assms(1) obtain http where fh: "field ev ''http'' = Some http"
    and fa: "field http ''authorizer'' = Some (Str s)"
    by (auto simp: httpAuthorizer_def split: option.splits)
  from fa have "truthy http" by (rule field_Some_truthy)
  with getProp_field [OF fh] getProp_field [OF fa] assms(2) show ?thesis
    by (simp add: authorizerConditions_def iamCondition_def customCondition_def
        cognitoCondition_def isString_def)
qed

lemma tracked_eventLoop:
  assumes "tracked (logStat h this sls c) = [d]"
  shows "\<exists>st. eventLoop (functions (service sls)) = Inr st \<and>
           prop_events (data_properties d) =
             \<lparr>numberOfEvents = length (st_numberOfEventsPerType st),
              numberOfEventsPerType = st_numberOfEventsPerType st,
              eventNamesPerFunction = st_eventNamesPerFunction st\<rparr> \<and>
           (prop_aws (data_properties d) = None \<or>
            prop_aws (data_properties d) =
              Some \<lparr>hasIAMAuthorizer = st_hasIAMAuthorizer st,
                    hasCustomAuthorizer = st_hasCustomAuthorizer st,
                    hasCognitoAuthorizer = st_hasCognitoAuthorizer st\<rparr>)"
proof -
  from logStat_tracked [OF assms] obtain cfg c' where
    "buildData h this sls c' cfg = Inr (Some d)" by blast
  from buildData_Some [OF this] obtain mts st hasR hasS prov isAWS where
    e: "eventLoop (functions (service sls)) = Inr st" and
    d: "d = makeData h sls c' cfg mts st hasR hasS prov isAWS" by blast
  show ?thesis
    using e unfolding d makeData_events makeData_aws by (cases isAWS) simp_all
qed

lemma not_cognito_AWS_IAM: "\<not> sublist ''arn:aws:cognito-idp'' ''AWS_IAM''"
  by (auto dest: sublist_length_le)

section \<open>The tally\<close>

lemma tally_names:
  "map ev_name (tally n t) =
     (if n \<in> set (map ev_name t) then map ev_name t else map ev_name t @ [n])"
  by (induction t) auto

lemma tally_distinct:
  "distinct (map ev_name t) \<Longrightarrow> distinct (map ev_name (tally n t))"
  by (simp add: tally_names)

lemma tally_set: "set (map ev_name (tally n t)) = insert n (set (map ev_name t))"
  by (auto simp: tally_names)

lemma countOf_tally: "countOf (tally n t) x = countOf t x + (if x = n then 1 else 0)"
  by (induction t) auto

lemma tallyAll_Nil [simp]: "tallyAll [] t = t"
  by (simp add: tallyAll_def)

lemma tallyAll_Cons [simp]: "tallyAll (n # names) t = tallyAll names (tally n t)"
  by (simp add: tallyAll_def)

lemma tallyAll_distinct:
  "distinct (map ev_name t) \<Longrightarrow> distinct (map ev_name (tallyAll names t))"
  by (induction names arbitrary: t) (simp_all add: tally_distinct)

lemma tallyAll_set:
  "set (map ev_name (tallyAll names t)) = set (map ev_name t) \<union> set names"
proof (induction names arbitrary: t)
  case Nil
  show ?case by simp
next
  case (Cons n names)
  show ?case unfolding tallyAll_Cons Cons.IH tally_set by auto
qed

lemma countOf_tallyAll: "countOf (tallyAll names t) x = countOf t x + count_list names x"
  by (induction names arbitrary: t) (simp_all add: countOf_tally)

lemma countOf_distinct:
  "distinct (map ev_name t) \<Longrightarrow> e \<in> set t \<Longrightarrow> countOf t (ev_name e) = ev_count e"
  by (induction t) auto

lemma count_list_map_filter:
  "count_list (map f xs) y = length (filter (\<lambda>x. f x = y) xs)"
  by (induction xs) auto

lemma tallyAll_counts:
  assumes "e \<in> set (tallyAll (map f evs) [])"
  shows "ev_count e = length (filter (\<lambda>ev. f ev = ev_name e) evs)"
proof -
  have "distinct (map ev_name (tallyAll (map f evs) []))"
    by (rule tallyAll_distinct) simp
  from countOf_distinct [OF this assms]
  show ?thesis by (simp add: countOf_tallyAll count_list_map_filter)
qed

lemma tracked_tally:
  assumes "tracked (logStat h this sls c) = [d]"
  shows "numberOfEventsPerType (prop_events (data_properties d)) =
           tallyAll (map bindingName (allEvents (functions (service sls)))) [] \<and>
         numberOfEvents (prop_events (data_properties d)) =
           length (numberOfEventsPerType (prop_events (data_properties d))) \<and>
         eventNamesPerFunction (prop_events (data_properties d)) =
           map (map bindingName) (declaredEvents (functions (service sls)))"
proof -
  from tracked_eventLoop [OF assms] obtain st where
    e: "eventLoop (functions (service sls)) = Inr st" and
    p: "prop_events (data_properties d) =
             \<lparr>numberOfEvents = length (st_numberOfEventsPerType st),
              numberOfEventsPerType = st_numberOfEventsPerType st,
              eventNamesPerFunction = st_eventNamesPerFunction st\<rparr>" by blast
  from eventLoop_Inr [OF e] show ?thesis unfolding p by simp
qed

lemma functionStep_no_events:
  "\<not> truthy (events func) \<Longrightarrow> functionStep (fname, func) st = Inr st"
  by (simp add: functionStep_def)

lemma eventLoop_foldE: "eventLoop fs = foldE functionStep fs initialEventState"
  by (cases fs) (simp_all add: eventLoop_def)

lemma foldE_functionStep_filter:
  "foldE functionStep (filter (\<lambda>(fname, func). truthy (events func)) fs) st =
   foldE functionStep fs st"
proof (induction fs arbitrary: st)
  case Nil
  show ?case by simp
next
  case (Cons f fs)
  obtain fname func where f: "f = (fname, func)" by (cases f)
  show ?case
  proof (cases "truthy (events func)")
    case True
    then show ?thesis
      by (cases "functionStep (fname, func) st") (simp_all add: f Cons.IH)
  next
    case False
    then show ?thesis
      by (simp add: f functionStep_no_events Cons.IH)
  qed
qed

lemma functionStep_array:
  "functionStep (fname, func) st = Inr st' \<Longrightarrow> truthy (events func) \<Longrightarrow> \<exists>evs. events func = Arr evs"
  by (cases "events func") (auto simp: functionStep_def)

lemma declaredEvents_single:
  "declaredEvents [(fname, func)] = (case events func of Arr evs \<Rightarrow> [evs] | _ \<Rightarrow> [])"
  by (simp add: declaredEvents_def)

lemma foldE_functionStep_length:
  assumes "foldE functionStep fs st = Inr st'"
  shows "length (declaredEvents fs) =
           length (filter (\<lambda>(fname, func). truthy (events func)) fs)"
  using assms
proof (induction fs arbitrary: st)
  case Nil
  show ?case by (simp add: declaredEvents_def)
next
  case (Cons f fs)
  obtain fname func where f: "f = (fname, func)" by (cases f)
  from Cons.prems f obtain st1 where
    s1: "functionStep (fname, func) st = Inr st1" and
    s2: "foldE functionStep fs st1 = Inr st'"
    by (auto simp: bindE_eq_Inr)
  have "length (declaredEvents [(fname, func)]) = (if truthy (events func) then 1 else 0)"
  proof (cases "truthy (events func)")
    case True
    with functionStep_array [OF s1] show ?thesis
      by (auto simp: declaredEvents_single)
  next
    case False
    then show ?thesis
      by (cases "events func") (simp_all add: declaredEvents_single)
  qed
  with Cons.IH [OF s2] show ?case
    unfolding declaredEvents_Cons [of f fs] by (simp add: f)
qed

section \<open>Provider, resources and numbers\<close>

lemma providerIsAWS_Inr:
  assumes "providerIsAWS prov = Inr b"
  shows "b = (case field prov ''name'' of Some (Str s) \<Rightarrow> equalsIgnoreCase s ''AWS'' | _ \<Rightarrow> False)"
proof (cases prov)
  case (Obj kvs)
  show ?thesis
  proof (cases "map_of kvs ''name''")
    case None
    with assms Obj show ?thesis by (simp add: providerIsAWS_def field_def)
  next
    case (Some nm)
    with assms Obj show ?thesis
      by (cases nm)
        (auto simp: providerIsAWS_def field_def equalsIgnoreCase_def toUpperCase_AWS
          split: if_splits)
  qed
qed (use assms in \<open>auto simp: providerIsAWS_def field_def split: if_splits\<close>)

lemma indices_eq_Nil [simp]: "indices n = [] \<longleftrightarrow> n = 0"
  by (simp add: indices_def)

lemma hasAtLeastOneKey_alt:
  "hasAtLeastOneKey v = (case Object_keys v of Inr ks \<Rightarrow> ks \<noteq> [] | Inl e \<Rightarrow> False)"
  by (simp add: hasAtLeastOneKey_def split: sum.splits list.splits)

lemma sectionDefined_eq: "sectionDefined res k = Inr (existsWithKeys res k)"
proof (cases res)
  case (Obj kvs)
  show ?thesis
  proof (cases "map_of kvs k")
    case None
    with Obj show ?thesis by (simp add: sectionDefined_def existsWithKeys_def field_def)
  next
    case (Some sect)
    with Obj show ?thesis
      by (cases sect)
        (simp_all add: sectionDefined_def existsWithKeys_def field_def hasAtLeastOneKey_alt)
  qed
qed (simp_all add: sectionDefined_def existsWithKeys_def field_def)

lemma Number_js_primitive:
  assumes "isPrimitive v"
  shows "\<exists>n. Number_js h v = Inr n \<and> counts h v = (if truthy_num n then Some n else None)"
proof (cases v)
  case (Num n)
  then show ?thesis by (cases n) (simp_all add: counts_def)
next
  case (Str s)
  then show ?thesis by (cases "StringToNumber h s") (simp_all add: counts_def)
qed (use assms in \<open>simp_all add: counts_def isPrimitive_def\<close>)

lemma numberOrDefault_chain:
  assumes "isPrimitive own"
    and "getProp (provider (service (this_serverless this))) k = Inr pv"
    and "isPrimitive pv"
  shows "numberOrDefault h this own k dflt = Inr (chain h own pv dflt)"
proof -
  from Number_js_primitive [OF assms(1)] obtain n1 where
    n1: "Number_js h own = Inr n1" "counts h own = (if truthy_num n1 then Some n1 else None)"
    by blast
  from Number_js_primitive [OF assms(3)] obtain n2 where
    n2: "Number_js h pv = Inr n2" "counts h pv = (if truthy_num n2 then Some n2 else None)"
    by blast
  from n1 n2 assms(2) show ?thesis
    by (simp add: numberOrDefault_def chain_def)
qed

lemma mapE_Inr:
  assumes "\<And>x. x \<in> set xs \<Longrightarrow> f x = Inr (g x)"
  shows "mapE f xs = Inr (map g xs)"
  using assms by (induction xs) simp_all

section \<open>The privacy gate\<close>

text \<open>
  C1. Whatever the service and the command line are, when the user configuration is read
  and its \<^verbatim>\<open>trackingDisabled\<close> flag is set (truthy), \<^verbatim>\<open>logStat\<close> resolves with no
  payload and \<^verbatim>\<open>segment.track\<close> is not called.
\<close>

theorem logStat_trackingDisabled:
  assumes "getConfig h = Inr cfg" and "truthy (trackingDisabled cfg)"
  shows "logStat h this sls context = \<lparr>promise = Fulfilled, tracked = []\<rparr>"
  using assms by (simp add: logStat_def buildData_def Let_def)

theorem logStat_trackingDisabled_witness:
  "logStat (exampleHost\<lparr>getConfig := Inr (exampleConfig\<lparr>trackingDisabled := Bool True\<rparr>)\<rparr>)
     (exampleUtils ''aws'' []) (exampleServerless ''aws'' []) (Str ''install'')
   = \<lparr>promise = Fulfilled, tracked = []\<rparr>"
  using logStat_trackingDisabled
    [of "exampleHost\<lparr>getConfig := Inr (exampleConfig\<lparr>trackingDisabled := Bool True\<rparr>)\<rparr>"
        "exampleConfig\<lparr>trackingDisabled := Bool True\<rparr>"]
  by simp

text \<open>
  C8, as the code has it. When \<^verbatim>\<open>configUtils.getConfig()\<close> throws, nothing is handed to
  \<^verbatim>\<open>segment.track\<close>, and the promise that \<^verbatim>\<open>logStat\<close> returns is rejected with that
  exception: the executor has no handler, so the failure reaches the caller.
\<close>

theorem logStat_getConfig_throws:
  assumes "getConfig h = Inl e"
  shows "logStat h this sls context = \<lparr>promise = Rejected e, tracked = []\<rparr>"
  using assms by (simp add: logStat_def Let_def)

theorem logStat_getConfig_throws_witness:
  "logStat (exampleHost\<lparr>getConfig := Inl (HostError ''ENOENT'')\<rparr>)
     (exampleUtils ''aws'' []) (exampleServerless ''aws'' []) Undefined
   = \<lparr>promise = Rejected (HostError ''ENOENT''), tracked = []\<rparr>"
  using logStat_getConfig_throws [of "exampleHost\<lparr>getConfig := Inl (HostError ''ENOENT'')\<rparr>"]
  by simp

text \<open>The claim that a failed read is not propagated fails: with a \<^verbatim>\<open>getConfig\<close> that
  throws, the returned promise is rejected.\<close>

theorem logStat_read_failure_counterexample:
  "promise (logStat (exampleHost\<lparr>getConfig := Inl (HostError ''EACCES'')\<rparr>)
     (exampleUtils ''aws'' []) (exampleServerless ''aws'' []) (Str ''usage''))
   = Rejected (HostError ''EACCES'')"
  by code_simp

section \<open>Authorizer flags\<close>

text \<open>
  C3. In a payload that carries the \<^verbatim>\<open>aws\<close> section, \<^verbatim>\<open>hasIAMAuthorizer\<close> is true exactly
  when some binding of some function has an http authorizer that is the string
  \<^verbatim>\<open>AWS_IAM\<close> in any letter case, or an object whose \<^verbatim>\<open>type\<close> is that string in any
  letter case. When the only binding of the service is an http event with the authorizer
  \<^verbatim>\<open>"AWS_IAM"\<close>, \<^verbatim>\<open>hasIAMAuthorizer\<close> is true and the two other flags are false.
\<close>

theorem hasIAMAuthorizer_iff:
  assumes "tracked (logStat h this sls context) = [d]"
    and "prop_aws (data_properties d) = Some aws"
  shows "(hasIAMAuthorizer aws \<longleftrightarrow>
            (\<exists>ev\<in>set (allEvents (functions (service sls))). hasIAMBinding ev)) \<and>
         (allEvents (functions (service sls)) = [ev] \<and>
          httpAuthorizer ev = Some (Str ''AWS_IAM'') \<longrightarrow>
            hasIAMAuthorizer aws \<and> \<not> hasCustomAuthorizer aws \<and> \<not> hasCognitoAuthorizer aws)"
proof -
  let ?evs = "allEvents (functions (service sls))"
  from tracked_eventLoop [OF assms(1)] assms(2) obtain st where
    e: "eventLoop (functions (service sls)) = Inr st" and
    aws: "aws = \<lparr>hasIAMAuthorizer = st_hasIAMAuthorizer st,
                 hasCustomAuthorizer = st_hasCustomAuthorizer st,
                 hasCognitoAuthorizer = st_hasCognitoAuthorizer st\<rparr>"
    by auto
  note L = eventLoop_Inr [OF e]
  have same: "triggersIAM ev' = hasIAMBinding ev'" if "ev' \<in> set ?evs" for ev'
  proof -
    from L that obtain i c g where c: "authorizerConditions ev' = Inr (i, c, g)"
      by (metis prod_cases3)
    from authorizerConditions_IAM [OF c] c show ?thesis
      by (simp add: triggersIAM_def)
  qed
  have one: "hasIAMAuthorizer aws \<longleftrightarrow> (\<exists>ev\<in>set ?evs. hasIAMBinding ev)"
    using L same by (auto simp: aws)
  have two: "hasIAMAuthorizer aws \<and> \<not> hasCustomAuthorizer aws \<and> \<not> hasCognitoAuthorizer aws"
    if only: "?evs = [ev]" and au: "httpAuthorizer ev = Some (Str ''AWS_IAM'')"
  proof -
    from authorizerConditions_string [OF au]
    have "authorizerConditions ev = Inr (True, False, False)"
      by (simp add: toUpperCase_AWS_IAM not_cognito_AWS_IAM)
    with L only show ?thesis
      by (simp add: aws triggersIAM_def triggersCustom_def triggersCognito_def)
  qed
  from one two show ?thesis by blast
qed

theorem hasIAMAuthorizer_iff_witness:
  "\<exists>d aws.
     tracked (logStat exampleHost
        (exampleUtils ''aws'' [(''hello'', functionWith (Arr [httpEvent (Str ''AWS_IAM'')]))])
        (exampleServerless ''aws'' [(''hello'', functionWith (Arr [httpEvent (Str ''AWS_IAM'')]))])
        Undefined) = [d] \<and>
     prop_aws (data_properties d) = Some aws \<and>
     allEvents [(''hello'', functionWith (Arr [httpEvent (Str ''AWS_IAM'')]))]
       = [httpEvent (Str ''AWS_IAM'')] \<and>
     httpAuthorizer (httpEvent (Str ''AWS_IAM'')) = Some (Str ''AWS_IAM'') \<and>
     hasIAMBinding (httpEvent (Str ''AWS_IAM'')) \<and>
     hasIAMAuthorizer aws \<and> \<not> hasCustomAuthorizer aws \<and> \<not> hasCognitoAuthorizer aws"
proof -
  let ?fs = "[(''hello'', functionWith (Arr [httpEvent (Str ''AWS_IAM'')]))]"
  let ?run = "logStat exampleHost (exampleUtils ''aws'' ?fs) (exampleServerless ''aws'' ?fs) Undefined"
  have len: "length (tracked ?run) = 1" by code_simp
  then obtain d where d: "tracked ?run = [d]"
    by (cases "tracked ?run") auto
  have "map (\<lambda>d. prop_aws (data_properties d) \<noteq> None) (tracked ?run) = [True]"
    by code_simp
  with d obtain aws where aws: "prop_aws (data_properties d) = Some aws" by auto
  have ev: "allEvents (functions (service (exampleServerless ''aws'' ?fs)))
              = [httpEvent (Str ''AWS_IAM'')]"
    by (simp add: exampleServerless_def allEvents_def declaredEvents_def functionWith_def)
  have au: "httpAuthorizer (httpEvent (Str ''AWS_IAM'')) = Some (Str ''AWS_IAM'')"
    by (simp add: httpAuthorizer_def httpEvent_def field_def)
  have ib: "hasIAMBinding (httpEvent (Str ''AWS_IAM''))"
    by (simp add: hasIAMBinding_def au isIAMAuthorizer_def equalsIgnoreCase_def)
  have ev': "allEvents ?fs = [httpEvent (Str ''AWS_IAM'')]"
    by (simp add: allEvents_def declaredEvents_def functionWith_def)
  from hasIAMAuthorizer_iff [OF d aws, of "httpEvent (Str ''AWS_IAM'')"] ev au
  have "hasIAMAuthorizer aws \<and> \<not> hasCustomAuthorizer aws \<and> \<not> hasCognitoAuthorizer aws"
    by blast
  with d aws ev' au ib show ?thesis by blast
qed

text \<open>
  C4. In a payload that carries the \<^verbatim>\<open>aws\<close> section, \<^verbatim>\<open>hasCognitoAuthorizer\<close> is true as
  soon as some binding has an http authorizer that is a string containing
  \<^verbatim>\<open>arn:aws:cognito-idp\<close>, or an object whose \<^verbatim>\<open>arn\<close> is such a string. A binding whose
  authorizer is such a string changes nothing in the accumulators but
  \<^verbatim>\<open>hasCognitoAuthorizer\<close>: it leaves \<^verbatim>\<open>hasCustomAuthorizer\<close> as it was.
\<close>

theorem hasCognitoAuthorizer_set:
  "(tracked (logStat h this sls context) = [d] \<and>
    prop_aws (data_properties d) = Some aws \<and>
    (\<exists>ev\<in>set (allEvents (functions (service sls))). hasCognitoBinding ev)
      \<longrightarrow> hasCognitoAuthorizer aws) \<and>
   (httpAuthorizer ev = Some (Str s) \<and> sublist ''arn:aws:cognito-idp'' s
      \<longrightarrow> classifyAuthorizer ev st = Inr (st\<lparr>st_hasCognitoAuthorizer := True\<rparr>))"
proof (intro conjI impI)
  assume a: "tracked (logStat h this sls context) = [d] \<and>
    prop_aws (data_properties d) = Some aws \<and>
    (\<exists>ev\<in>set (allEvents (functions (service sls))). hasCognitoBinding ev)"
  let ?evs = "allEvents (functions (service sls))"
  from a tracked_eventLoop [of h "this" sls "context" d] obtain st' where
    e: "eventLoop (functions (service sls)) = Inr st'" and
    aws: "aws = \<lparr>hasIAMAuthorizer = st_hasIAMAuthorizer st',
                 hasCustomAuthorizer = st_hasCustomAuthorizer st',
                 hasCognitoAuthorizer = st_hasCognitoAuthorizer st'\<rparr>"
    by auto
  note L = eventLoop_Inr [OF e]
  from a obtain ev' where in_evs: "ev' \<in> set ?evs" and cb: "hasCognitoBinding ev'" by blast
  from L in_evs obtain i c g where c: "authorizerConditions ev' = Inr (i, c, g)"
    by (metis prod_cases3)
  from authorizerConditions_Cognito [OF c cb] c have "triggersCognito ev'"
    by (simp add: triggersCognito_def)
  with L in_evs show "hasCognitoAuthorizer aws" by (auto simp: aws)
next
  assume b: "httpAuthorizer ev = Some (Str s) \<and> sublist ''arn:aws:cognito-idp'' s"
  then have "s \<noteq> []" by auto
  with b authorizerConditions_string [of ev s]
  have "authorizerConditions ev = Inr (False, False, True)"
    by (simp add: cognito_not_IAM)
  then show "classifyAuthorizer ev st = Inr (st\<lparr>st_hasCognitoAuthorizer := True\<rparr>)"
    by (simp add: classifyAuthorizer_def)
qed

theorem hasCognitoAuthorizer_set_witness:
  "\<exists>d aws.
     tracked (logStat exampleHost
        (exampleUtils ''aws''
           [(''hello'', functionWith (Arr [httpEvent (Str ''arn:aws:cognito-idp:eu-west-1:1:userpool/X'')]))])
        (exampleServerless ''aws''
           [(''hello'', functionWith (Arr [httpEvent (Str ''arn:aws:cognito-idp:eu-west-1:1:userpool/X'')]))])
        Undefined) = [d] \<and>
     prop_aws (data_properties d) = Some aws \<and>
     hasCognitoBinding (httpEvent (Str ''arn:aws:cognito-idp:eu-west-1:1:userpool/X'')) \<and>
     hasCognitoAuthorizer aws \<and>
     classifyAuthorizer (httpEvent (Str ''arn:aws:cognito-idp:eu-west-1:1:userpool/X''))
        initialEventState = Inr (initialEventState\<lparr>st_hasCognitoAuthorizer := True\<rparr>)"
proof -
  let ?arn = "''arn:aws:cognito-idp:eu-west-1:1:userpool/X''"
  let ?fs = "[(''hello'', functionWith (Arr [httpEvent (Str ?arn)]))]"
  let ?run = "logStat exampleHost (exampleUtils ''aws'' ?fs) (exampleServerless ''aws'' ?fs) Undefined"
  have "length (tracked ?run) = 1" by code_simp
  then obtain d where d: "tracked ?run = [d]"
    by (cases "tracked ?run") auto
  have "map (\<lambda>d. prop_aws (data_properties d) \<noteq> None) (tracked ?run) = [True]"
    by code_simp
  with d obtain aws where aws: "prop_aws (data_properties d) = Some aws" by auto
  have sub: "sublist ''arn:aws:cognito-idp'' ?arn" by code_simp
  have au: "httpAuthorizer (httpEvent (Str ?arn)) = Some (Str ?arn)"
    by (simp add: httpAuthorizer_def httpEvent_def field_def)
  have cb: "hasCognitoBinding (httpEvent (Str ?arn))"
    using sub by (simp add: hasCognitoBinding_def au isCognitoAuthorizer_def)
  have ev: "httpEvent (Str ?arn) \<in> set (allEvents (functions (service (exampleServerless ''aws'' ?fs))))"
    by (simp add: exampleServerless_def allEvents_def declaredEvents_def functionWith_def)
  note T = hasCognitoAuthorizer_set [of exampleHost "exampleUtils ''aws'' ?fs"
      "exampleServerless ''aws'' ?fs" Undefined d aws "httpEvent (Str ?arn)" ?arn initialEventState]
  from T d aws cb ev have "hasCognitoAuthorizer aws" by blast
  moreover from T au sub have "classifyAuthorizer (httpEvent (Str ?arn)) initialEventState
      = Inr (initialEventState\<lparr>st_hasCognitoAuthorizer := True\<rparr>)" by blast
  ultimately show ?thesis using d aws cb by blast
qed

section \<open>Memory size and timeout\<close>

text \<open>
  C2, as the code has it. The values are read with \<^verbatim>\<open>Number(v) || ...\<close>, so a value counts
  when \<^verbatim>\<open>Number\<close> makes of it a number other than 0 and NaN: for every function, the
  computed memory size is the function-level value if it counts, else the provider-level
  default (read through \<^verbatim>\<open>this.serverless\<close>) if that counts, else 1024, and the same for
  the timeout with 6. Undefined, null, false, 0 and NaN never count; true counts as 1. With
  neither value set at either level the pair is exactly 1024 and 6. When the provider is
  an object and the values are undefined, null, booleans, numbers or strings, nothing
  throws, and these pairs are the \<^verbatim>\<open>memorySizeAndTimeoutPerFunction\<close> of an emitted
  payload. Where every value is either missing or a number other than 0 and NaN, this is
  the chain of the specification. (An array or an object is converted by the host's
  ToPrimitive, about which nothing is said here.)
\<close>

theorem memorySize_timeout_chain:
  assumes "getProp (provider (service (this_serverless this))) ''memorySize'' = Inr pm"
    and "getProp (provider (service (this_serverless this))) ''timeout'' = Inr pt"
    and "isPrimitive pm" and "isPrimitive pt"
    and "\<forall>f\<in>set fs. isPrimitive (memorySize (snd f)) \<and> isPrimitive (timeout (snd f))"
  shows "memorySizeAndTimeoutLoop h this fs =
           Inr (map (\<lambda>f. \<lparr>out_memorySize = chain h (memorySize (snd f)) pm (Fin 1024),
                          out_timeout = chain h (timeout (snd f)) pt (Fin 6)\<rparr>) fs) \<and>
         (tracked (logStat h this sls context) = [d] \<and> functions (service sls) = fs \<longrightarrow>
            memorySizeAndTimeoutPerFunction (prop_functions (data_properties d)) =
              map (\<lambda>f. \<lparr>out_memorySize = chain h (memorySize (snd f)) pm (Fin 1024),
                          out_timeout = chain h (timeout (snd f)) pt (Fin 6)\<rparr>) fs) \<and>
         chain h Undefined Undefined (Fin 1024) = Fin 1024 \<and>
         chain h Undefined Undefined (Fin 6) = Fin 6 \<and>
         ((\<forall>v\<in>{own, dflt}. v = Undefined \<or> (\<exists>n. v = Num n \<and> n \<noteq> NaN \<and> n \<noteq> Fin 0)) \<longrightarrow>
            chain h own dflt final = specChain own dflt final)"
proof -
  have one: "memorySizeAndTimeout h this (snd f) =
      Inr \<lparr>out_memorySize = chain h (memorySize (snd f)) pm (Fin 1024),
           out_timeout = chain h (timeout (snd f)) pt (Fin 6)\<rparr>" if "f \<in> set fs" for f
    using that assms
    by (simp add: memorySizeAndTimeout_def numberOrDefault_chain)
  have loop: "memorySizeAndTimeoutLoop h this fs =
           Inr (map (\<lambda>f. \<lparr>out_memorySize = chain h (memorySize (snd f)) pm (Fin 1024),
                          out_timeout = chain h (timeout (snd f)) pt (Fin 6)\<rparr>) fs)"
  proof (cases "fs = []")
    case True
    then show ?thesis by (simp add: memorySizeAndTimeoutLoop_def)
  next
    case False
    have "mapE (\<lambda>(fname, func). memorySizeAndTimeout h this func) fs =
          Inr (map (\<lambda>f. \<lparr>out_memorySize = chain h (memorySize (snd f)) pm (Fin 1024),
                          out_timeout = chain h (timeout (snd f)) pt (Fin 6)\<rparr>) fs)"
      by (rule mapE_Inr) (use one in \<open>auto simp: case_prod_unfold\<close>)
    with False show ?thesis by (simp add: memorySizeAndTimeoutLoop_def)
  qed
  have payload: "memorySizeAndTimeoutPerFunction (prop_functions (data_properties d)) =
              map (\<lambda>f. \<lparr>out_memorySize = chain h (memorySize (snd f)) pm (Fin 1024),
                          out_timeout = chain h (timeout (snd f)) pt (Fin 6)\<rparr>) fs"
    if t: "tracked (logStat h this sls context) = [d]" and fs: "functions (service sls) = fs"
  proof -
    from logStat_tracked [OF t] obtain cfg c' where
      "buildData h this sls c' cfg = Inr (Some d)" by blast
    from buildData_Some [OF this] obtain mts st hasR hasS prov isAWS where
      m: "memorySizeAndTimeoutLoop h this (functions (service sls)) = Inr mts" and
      d: "d = makeData h sls c' cfg mts st hasR hasS prov isAWS" by blast
    from m loop show ?thesis unfolding d makeData_functions fs by simp
  qed
  have dflt: "chain h Undefined Undefined x = x" for x
    by (simp add: chain_def counts_def)
  have spec: "chain h own dflt final = specChain own dflt final"
    if "\<forall>v\<in>{own, dflt}. v = Undefined \<or> (\<exists>n. v = Num n \<and> n \<noteq> NaN \<and> n \<noteq> Fin 0)"
    using that by (auto simp: chain_def counts_def specChain_def)
  from loop payload dflt spec show ?thesis by blast
qed

theorem memorySize_timeout_chain_witness:
  "memorySizeAndTimeoutLoop exampleHost
     \<lparr>this_serverless =
        (exampleServerless ''aws'' [])\<lparr>service :=
          (service (exampleServerless ''aws'' []))\<lparr>provider :=
            Obj [(''name'', Str ''aws''), (''timeout'', Num (Fin 30))]\<rparr>\<rparr>\<rparr>
     [(''a'', \<lparr>memorySize = Num (Fin 512), timeout = Undefined, events = Undefined\<rparr>),
      (''b'', \<lparr>memorySize = Null, timeout = Num (Fin 0), events = Undefined\<rparr>)]
   = Inr [\<lparr>out_memorySize = Fin 512, out_timeout = Fin 30\<rparr>,
          \<lparr>out_memorySize = Fin 1024, out_timeout = Fin 30\<rparr>]"
proof -
  let ?u = "\<lparr>this_serverless =
        (exampleServerless ''aws'' [])\<lparr>service :=
          (service (exampleServerless ''aws'' []))\<lparr>provider :=
            Obj [(''name'', Str ''aws''), (''timeout'', Num (Fin 30))]\<rparr>\<rparr>\<rparr>"
  let ?fs = "[(''a'', \<lparr>memorySize = Num (Fin 512), timeout = Undefined, events = Undefined\<rparr>),
      (''b'', \<lparr>memorySize = Null, timeout = Num (Fin 0), events = Undefined\<rparr>)]"
  have pm: "getProp (provider (service (this_serverless ?u))) ''memorySize'' = Inr Undefined"
    by simp
  have pt: "getProp (provider (service (this_serverless ?u))) ''timeout'' = Inr (Num (Fin 30))"
    by simp
  have prim: "isPrimitive Undefined" "isPrimitive (Num (Fin 30))"
    by (simp_all add: isPrimitive_def)
  have all: "\<forall>f\<in>set ?fs. isPrimitive (memorySize (snd f)) \<and> isPrimitive (timeout (snd f))"
    by (simp add: isPrimitive_def)
  from memorySize_timeout_chain [OF pm pt prim all, of exampleHost]
  show ?thesis by (simp add: chain_def counts_def)
qed

text \<open>The chain of the specification fails at 0: a function with \<^verbatim>\<open>memorySize: 0\<close> and a
  provider without defaults gets 1024, where the specification's chain gives the value
  itself.\<close>

theorem memorySize_zero_counterexample:
  "memorySizeAndTimeoutLoop exampleHost (exampleUtils ''aws'' [])
     [(''hello'', \<lparr>memorySize = Num (Fin 0), timeout = Undefined, events = Undefined\<rparr>)]
   = Inr [\<lparr>out_memorySize = Fin 1024, out_timeout = Fin 6\<rparr>] \<and>
   specChain (Num (Fin 0)) Undefined (Fin 1024) = Fin 0"
  by code_simp

section \<open>The event tally\<close>

text \<open>
  C5. In an emitted payload the names of \<^verbatim>\<open>numberOfEventsPerType\<close> are distinct, they
  are exactly the event-type names (first keys) of the bindings of all functions, and the
  count of each entry is the number of bindings of that name in the whole service. Two
  functions that each declare one \<^verbatim>\<open>http\<close> and one \<^verbatim>\<open>s3\<close> event, in either order, give
  exactly the two entries \<^verbatim>\<open>{name: "http", count: 2}\<close> and \<^verbatim>\<open>{name: "s3", count: 2}\<close>.
\<close>

theorem numberOfEventsPerType_tally:
  assumes "tracked (logStat h this sls context) = [d]"
  shows "distinct (map ev_name (numberOfEventsPerType (prop_events (data_properties d)))) \<and>
         set (map ev_name (numberOfEventsPerType (prop_events (data_properties d)))) =
           bindingName ` set (allEvents (functions (service sls))) \<and>
         (\<forall>e\<in>set (numberOfEventsPerType (prop_events (data_properties d))).
            ev_count e =
              length (filter (\<lambda>ev. bindingName ev = ev_name e)
                        (allEvents (functions (service sls))))) \<and>
         (declaredEvents (functions (service sls)) = [evs1, evs2] \<and>
          (map bindingName evs1 = [Some ''http'', Some ''s3''] \<or>
           map bindingName evs1 = [Some ''s3'', Some ''http'']) \<and>
          (map bindingName evs2 = [Some ''http'', Some ''s3''] \<or>
           map bindingName evs2 = [Some ''s3'', Some ''http''])
          \<longrightarrow> set (numberOfEventsPerType (prop_events (data_properties d))) =
                {\<lparr>ev_name = Some ''http'', ev_count = 2\<rparr>,
                 \<lparr>ev_name = Some ''s3'', ev_count = 2\<rparr>} \<and>
              length (numberOfEventsPerType (prop_events (data_properties d))) = 2)"
proof -
  let ?t = "numberOfEventsPerType (prop_events (data_properties d))"
  let ?evs = "allEvents (functions (service sls))"
  from tracked_tally [OF assms] have t: "?t = tallyAll (map bindingName ?evs) []" by simp
  have 1: "distinct (map ev_name ?t)"
    unfolding t by (rule tallyAll_distinct) simp
  have 2: "set (map ev_name ?t) = bindingName ` set ?evs"
    unfolding t tallyAll_set by simp
  have 3: "\<forall>e\<in>set ?t. ev_count e = length (filter (\<lambda>ev. bindingName ev = ev_name e) ?evs)"
    unfolding t by (auto dest: tallyAll_counts)
  have 4: "set ?t = {\<lparr>ev_name = Some ''http'', ev_count = 2\<rparr>,
                     \<lparr>ev_name = Some ''s3'', ev_count = 2\<rparr>} \<and> length ?t = 2"
    if d2: "declaredEvents (functions (service sls)) = [evs1, evs2]"
      and n1: "map bindingName evs1 = [Some ''http'', Some ''s3''] \<or>
               map bindingName evs1 = [Some ''s3'', Some ''http'']"
      and n2: "map bindingName evs2 = [Some ''http'', Some ''s3''] \<or>
               map bindingName evs2 = [Some ''s3'', Some ''http'']"
  proof -
    from d2 have "map bindingName ?evs = map bindingName evs1 @ map bindingName evs2"
      by (simp add: allEvents_def)
    with n1 n2 show ?thesis unfolding t by auto
  qed
  have 5: "declaredEvents (functions (service sls)) = [evs1, evs2] \<and>
          (map bindingName evs1 = [Some ''http'', Some ''s3''] \<or>
           map bindingName evs1 = [Some ''s3'', Some ''http'']) \<and>
          (map bindingName evs2 = [Some ''http'', Some ''s3''] \<or>
           map bindingName evs2 = [Some ''s3'', Some ''http''])
          \<longrightarrow> set ?t = {\<lparr>ev_name = Some ''http'', ev_count = 2\<rparr>,
                        \<lparr>ev_name = Some ''s3'', ev_count = 2\<rparr>} \<and> length ?t = 2"
  proof (intro impI, elim conjE)
    assume a: "declaredEvents (functions (service sls)) = [evs1, evs2]"
      and b: "map bindingName evs1 = [Some ''http'', Some ''s3''] \<or>
              map bindingName evs1 = [Some ''s3'', Some ''http'']"
      and c: "map bindingName evs2 = [Some ''http'', Some ''s3''] \<or>
              map bindingName evs2 = [Some ''s3'', Some ''http'']"
    from 4 [OF a b c]
    show "set ?t = {\<lparr>ev_name = Some ''http'', ev_count = 2\<rparr>,
                    \<lparr>ev_name = Some ''s3'', ev_count = 2\<rparr>} \<and> length ?t = 2" .
  qed
  show ?thesis by (intro conjI) (fact 1 2 3 5)+
qed

theorem numberOfEventsPerType_tally_witness:
  "\<exists>d. tracked (logStat exampleHost
          (exampleUtils ''aws''
             [(''a'', functionWith (Arr [httpEvent Undefined, plainEvent ''s3''])),
              (''b'', functionWith (Arr [plainEvent ''s3'', httpEvent Undefined]))])
          (exampleServerless ''aws''
             [(''a'', functionWith (Arr [httpEvent Undefined, plainEvent ''s3''])),
              (''b'', functionWith (Arr [plainEvent ''s3'', httpEvent Undefined]))])
          Undefined) = [d] \<and>
        set (numberOfEventsPerType (prop_events (data_properties d))) =
          {\<lparr>ev_name = Some ''http'', ev_count = 2\<rparr>, \<lparr>ev_name = Some ''s3'', ev_count = 2\<rparr>} \<and>
        length (numberOfEventsPerType (prop_events (data_properties d))) = 2"
proof -
  let ?e1 = "[httpEvent Undefined, plainEvent ''s3'']"
  let ?e2 = "[plainEvent ''s3'', httpEvent Undefined]"
  let ?fs = "[(''a'', functionWith (Arr ?e1)), (''b'', functionWith (Arr ?e2))]"
  let ?run = "logStat exampleHost (exampleUtils ''aws'' ?fs) (exampleServerless ''aws'' ?fs) Undefined"
  have "length (tracked ?run) = 1" by code_simp
  then obtain d where d: "tracked ?run = [d]"
    by (cases "tracked ?run") auto
  have fs: "declaredEvents (functions (service (exampleServerless ''aws'' ?fs))) = [?e1, ?e2]"
    by (simp add: exampleServerless_def declaredEvents_def functionWith_def)
  have n1: "map bindingName ?e1 = [Some ''http'', Some ''s3'']"
    by (simp add: bindingName_def httpEvent_def plainEvent_def)
  have n2: "map bindingName ?e2 = [Some ''s3'', Some ''http'']"
    by (simp add: bindingName_def httpEvent_def plainEvent_def)
  from numberOfEventsPerType_tally [OF d, of ?e1 ?e2] fs n1 n2
  have "set (numberOfEventsPerType (prop_events (data_properties d))) =
          {\<lparr>ev_name = Some ''http'', ev_count = 2\<rparr>, \<lparr>ev_name = Some ''s3'', ev_count = 2\<rparr>} \<and>
        length (numberOfEventsPerType (prop_events (data_properties d))) = 2"
    by blast
  with d show ?thesis by blast
qed

text \<open>
  C10. In an emitted payload \<^verbatim>\<open>numberOfEvents\<close> is the length of
  \<^verbatim>\<open>numberOfEventsPerType\<close>, which is the number of distinct event-type names of the
  service and not the number of its bindings.
\<close>

theorem numberOfEvents_distinct_names:
  assumes "tracked (logStat h this sls context) = [d]"
  shows "numberOfEvents (prop_events (data_properties d)) =
           length (numberOfEventsPerType (prop_events (data_properties d))) \<and>
         numberOfEvents (prop_events (data_properties d)) =
           card (bindingName ` set (allEvents (functions (service sls))))"
proof -
  let ?t = "numberOfEventsPerType (prop_events (data_properties d))"
  let ?evs = "allEvents (functions (service sls))"
  from tracked_tally [OF assms] have t: "?t = tallyAll (map bindingName ?evs) []"
    and n: "numberOfEvents (prop_events (data_properties d)) = length ?t" by simp_all
  have "distinct (map ev_name ?t)"
    unfolding t by (rule tallyAll_distinct) simp
  then have "card (set (map ev_name ?t)) = length ?t"
    by (metis distinct_card length_map)
  moreover have "set (map ev_name ?t) = bindingName ` set ?evs"
    unfolding t tallyAll_set by simp
  ultimately show ?thesis using n by simp
qed

theorem numberOfEvents_distinct_names_witness:
  "\<exists>d. tracked (logStat exampleHost
          (exampleUtils ''aws''
             [(''a'', functionWith (Arr [httpEvent Undefined, httpEvent Null, httpEvent (Str ''auth'')]))])
          (exampleServerless ''aws''
             [(''a'', functionWith (Arr [httpEvent Undefined, httpEvent Null, httpEvent (Str ''auth'')]))])
          Undefined) = [d] \<and>
        numberOfEvents (prop_events (data_properties d)) = 1 \<and>
        length (allEvents
          [(''a'', functionWith (Arr [httpEvent Undefined, httpEvent Null, httpEvent (Str ''auth'')]))]) = 3"
proof -
  let ?fs = "[(''a'', functionWith (Arr [httpEvent Undefined, httpEvent Null, httpEvent (Str ''auth'')]))]"
  let ?run = "logStat exampleHost (exampleUtils ''aws'' ?fs) (exampleServerless ''aws'' ?fs) Undefined"
  have "length (tracked ?run) = 1" by code_simp
  then obtain d where d: "tracked ?run = [d]"
    by (cases "tracked ?run") auto
  have evs: "allEvents ?fs = [httpEvent Undefined, httpEvent Null, httpEvent (Str ''auth'')]"
    by (simp add: allEvents_def declaredEvents_def functionWith_def)
  have fs: "functions (service (exampleServerless ''aws'' ?fs)) = ?fs"
    by (simp add: exampleServerless_def)
  have "bindingName ` set (allEvents ?fs) = {Some ''http''}"
    unfolding evs by (simp add: bindingName_def httpEvent_def)
  with numberOfEvents_distinct_names [OF d] d evs show ?thesis
    unfolding fs by (intro exI [of _ d]) simp
qed

text \<open>
  C7, as the code has it. In an emitted payload \<^verbatim>\<open>eventNamesPerFunction\<close> has one inner
  sequence, the names of its bindings, for every function whose \<^verbatim>\<open>events\<close> is an array,
  in declaration order; that is one for every function whose \<^verbatim>\<open>events\<close> is truthy, an
  empty array included. A function whose \<^verbatim>\<open>events\<close> is absent (or falsy) has no entry and
  no binding, and the loop leaves the same accumulators as without it.
\<close>

theorem eventNamesPerFunction_entries:
  assumes "tracked (logStat h this sls context) = [d]"
  shows "eventNamesPerFunction (prop_events (data_properties d)) =
           map (map bindingName) (declaredEvents (functions (service sls))) \<and>
         length (eventNamesPerFunction (prop_events (data_properties d))) =
           length (filter (\<lambda>(fname, func). truthy (events func)) (functions (service sls))) \<and>
         eventLoop (filter (\<lambda>(fname, func). truthy (events func)) (functions (service sls))) =
           eventLoop (functions (service sls)) \<and>
         (\<forall>f\<in>set (functions (service sls)).
            \<not> truthy (events (snd f)) \<longrightarrow> declaredEvents [f] = [] \<and> allEvents [f] = [])"
proof -
  have none: "declaredEvents [f] = [] \<and> allEvents [f] = []"
    if "\<not> truthy (events (snd f))" for f
    using that by (cases f; cases "events (snd f)")
      (auto simp: declaredEvents_def allEvents_def)
  from tracked_eventLoop [OF assms] obtain st where
    "eventLoop (functions (service sls)) = Inr st" by blast
  then have "foldE functionStep (functions (service sls)) initialEventState = Inr st"
    by (simp add: eventLoop_foldE)
  from foldE_functionStep_length [OF this] none tracked_tally [OF assms] show ?thesis
    by (simp add: eventLoop_foldE foldE_functionStep_filter)
qed

theorem eventNamesPerFunction_entries_witness:
  "\<exists>d. tracked (logStat exampleHost
          (exampleUtils ''aws''
             [(''a'', functionWith Undefined), (''b'', functionWith (Arr [plainEvent ''s3''])),
              (''c'', functionWith (Arr []))])
          (exampleServerless ''aws''
             [(''a'', functionWith Undefined), (''b'', functionWith (Arr [plainEvent ''s3''])),
              (''c'', functionWith (Arr []))])
          Undefined) = [d] \<and>
        eventNamesPerFunction (prop_events (data_properties d)) = [[Some ''s3''], []] \<and>
        length (eventNamesPerFunction (prop_events (data_properties d))) = 2"
proof -
  let ?fs = "[(''a'', functionWith Undefined), (''b'', functionWith (Arr [plainEvent ''s3''])),
              (''c'', functionWith (Arr []))]"
  let ?run = "logStat exampleHost (exampleUtils ''aws'' ?fs) (exampleServerless ''aws'' ?fs) Undefined"
  have "length (tracked ?run) = 1" by code_simp
  then obtain d where d: "tracked ?run = [d]"
    by (cases "tracked ?run") auto
  have fs: "functions (service (exampleServerless ''aws'' ?fs)) = ?fs"
    by (simp add: exampleServerless_def)
  have "map (map bindingName) (declaredEvents ?fs) = [[Some ''s3''], []]"
    by (simp add: declaredEvents_def functionWith_def plainEvent_def bindingName_def)
  with eventNamesPerFunction_entries [OF d] d show ?thesis
    unfolding fs by (intro exI [of _ d]) simp
qed

text \<open>A function with no declared events does get an entry, an empty one, when its
  \<^verbatim>\<open>events\<close> is the empty array.\<close>

theorem empty_events_counterexample:
  "map (\<lambda>d. eventNamesPerFunction (prop_events (data_properties d)))
     (tracked (logStat exampleHost
        (exampleUtils ''aws'' [(''hello'', functionWith (Arr []))])
        (exampleServerless ''aws'' [(''hello'', functionWith (Arr []))])
        Undefined))
   = [[[]]]"
  by code_simp

section \<open>Provider and resources\<close>

text \<open>
  C9. An emitted payload has the \<^verbatim>\<open>aws\<close> section (with its three authorizer flags) if and
  only if the provider has a \<^verbatim>\<open>name\<close> that is a string equal to \<^verbatim>\<open>AWS\<close> in any letter
  case; with any other name, or none, the section is absent.
\<close>

theorem aws_section_iff:
  assumes "tracked (logStat h this sls context) = [d]"
  shows "(prop_aws (data_properties d) \<noteq> None) =
           (case field (provider (service sls)) ''name'' of
              Some (Str s) \<Rightarrow> equalsIgnoreCase s ''AWS''
            | _ \<Rightarrow> False)"
proof -
  from logStat_tracked [OF assms] obtain cfg c' where
    "buildData h this sls c' cfg = Inr (Some d)" by blast
  from buildData_Some [OF this] obtain mts st hasR hasS prov isAWS where
    p: "providerIsAWS (provider (service sls)) = Inr isAWS" and
    d: "d = makeData h sls c' cfg mts st hasR hasS prov isAWS" by blast
  from providerIsAWS_Inr [OF p] show ?thesis
    unfolding d makeData_aws by (cases isAWS) simp_all
qed

theorem aws_section_iff_witness:
  "(\<exists>d. tracked (logStat exampleHost (exampleUtils ''aws'' []) (exampleServerless ''aws'' [])
            Undefined) = [d] \<and> prop_aws (data_properties d) \<noteq> None) \<and>
   (\<exists>d. tracked (logStat exampleHost (exampleUtils ''google'' []) (exampleServerless ''google'' [])
            Undefined) = [d] \<and> prop_aws (data_properties d) = None)"
proof -
  let ?run = "\<lambda>p. logStat exampleHost (exampleUtils p []) (exampleServerless p []) Undefined"
  have "length (tracked (?run ''aws'')) = 1" by code_simp
  then obtain d1 where d1: "tracked (?run ''aws'') = [d1]"
    by (cases "tracked (?run ''aws'')") auto
  have "length (tracked (?run ''google'')) = 1" by code_simp
  then obtain d2 where d2: "tracked (?run ''google'') = [d2]"
    by (cases "tracked (?run ''google'')") auto
  have n: "field (provider (service (exampleServerless p []))) ''name'' = Some (Str p)" for p
    by (simp add: exampleServerless_def exampleProvider_def field_def)
  have a: "equalsIgnoreCase ''aws'' ''AWS''" by code_simp
  have g: "\<not> equalsIgnoreCase ''google'' ''AWS''" by code_simp
  from aws_section_iff [OF d1] n a have "prop_aws (data_properties d1) \<noteq> None" by simp
  moreover from aws_section_iff [OF d2] n g have "prop_aws (data_properties d2) = None" by simp
  ultimately show ?thesis using d1 d2 by blast
qed

text \<open>
  C6. \<^verbatim>\<open>hasCustomResourcesDefined\<close> is true if and only if \<^verbatim>\<open>resources.Resources\<close> exists
  and has at least one key, or \<^verbatim>\<open>resources.Outputs\<close> exists and has at least one key
  (the keys that \<^verbatim>\<open>Object.keys\<close> reports); so it is in the emitted payload. It is true for
  a \<^verbatim>\<open>Resources\<close> with exactly one key and false when \<^verbatim>\<open>resources\<close> is absent.
\<close>

theorem hasCustomResourcesDefined_iff:
  "customResourcesDefined res =
     Inr (existsWithKeys res ''Resources'' \<or> existsWithKeys res ''Outputs'') \<and>
   (tracked (logStat h this sls context) = [d] \<longrightarrow>
      hasCustomResourcesDefined (prop_service (data_properties d)) =
        (existsWithKeys (resources (service sls)) ''Resources'' \<or>
         existsWithKeys (resources (service sls)) ''Outputs'')) \<and>
   customResourcesDefined (Obj [(''Resources'', Obj [(k, v)])]) = Inr True \<and>
   customResourcesDefined Undefined = Inr False"
proof -
  have 1: "customResourcesDefined r =
     Inr (existsWithKeys r ''Resources'' \<or> existsWithKeys r ''Outputs'')" for r
    by (simp add: customResourcesDefined_def sectionDefined_eq)
  have 2: "hasCustomResourcesDefined (prop_service (data_properties d)) =
        (existsWithKeys (resources (service sls)) ''Resources'' \<or>
         existsWithKeys (resources (service sls)) ''Outputs'')"
    if t: "tracked (logStat h this sls context) = [d]"
  proof -
    from logStat_tracked [OF t] obtain cfg c' where
      "buildData h this sls c' cfg = Inr (Some d)" by blast
    from buildData_Some [OF this] obtain mts st hasR hasS prov isAWS where
      r: "customResourcesDefined (resources (service sls)) = Inr hasR" and
      d: "d = makeData h sls c' cfg mts st hasR hasS prov isAWS" by blast
    from r show ?thesis unfolding d makeData_resources 1 by simp
  qed
  have 3: "customResourcesDefined (Obj [(''Resources'', Obj [(k, v)])]) = Inr True"
    unfolding 1 by (simp add: existsWithKeys_def field_def hasAtLeastOneKey_alt)
  have 4: "customResourcesDefined Undefined = Inr False"
    unfolding 1 by (simp add: existsWithKeys_def field_def)
  from 1 2 3 4 show ?thesis by blast
qed

theorem hasCustomResourcesDefined_iff_witness:
  "\<exists>d. tracked (logStat exampleHost (exampleUtils ''aws'' [])
          ((exampleServerless ''aws'' [])\<lparr>service :=
             (service (exampleServerless ''aws'' []))\<lparr>resources :=
               Obj [(''Resources'', Obj [(''Bucket'', Obj [(''Type'', Str ''AWS::S3::Bucket'')])])]\<rparr>\<rparr>)
          Undefined) = [d] \<and>
        hasCustomResourcesDefined (prop_service (data_properties d))"
proof -
  let ?res = "Obj [(''Resources'', Obj [(''Bucket'', Obj [(''Type'', Str ''AWS::S3::Bucket'')])])]"
  let ?sls = "(exampleServerless ''aws'' [])\<lparr>service :=
             (service (exampleServerless ''aws'' []))\<lparr>resources := ?res\<rparr>\<rparr>"
  let ?run = "logStat exampleHost (exampleUtils ''aws'' []) ?sls Undefined"
  have "length (tracked ?run) = 1" by code_simp
  then obtain d where d: "tracked ?run = [d]"
    by (cases "tracked ?run") auto
  have "existsWithKeys (resources (service ?sls)) ''Resources''"
    by (simp add: existsWithKeys_def field_def hasAtLeastOneKey_def)
  with hasCustomResourcesDefined_iff [of Undefined exampleHost "exampleUtils ''aws'' []" ?sls
      Undefined d] d
  show ?thesis by blast
qed

end
